(* ===== verification/Prelude.thy ===== *)
theory Prelude
  imports Main
begin

text \<open>
  What every component shares: the collections of rewrite rules the proofs draw on, the names of
  the machine types, the result type of a fallible operation, the checked conversions of the Rust
  standard library, and generic facts about lists that are split into batches or filtered.
\<close>

section \<open>Collections\<close>

named_theorems conv_simps \<open>checked integer conversions\<close>
named_theorems sql_simps \<open>what a statement does to the tables\<close>
named_theorems frame_simps \<open>what an operation leaves alone\<close>

section \<open>Types\<close>

text \<open>
  Signed integers are mathematical integers that a range predicate keeps at their width; where an
  operation can leave the range, the operation says what happens. Instants and durations are
  nanoseconds; a timestamp of the database is in microseconds since the epoch.
\<close>

type_synonym i16 = int
type_synonym i32 = int
type_synonym i64 = int
type_synonym i128 = int
type_synonym usize = nat
type_synonym nanos = nat
type_synonym micros = int

type_synonym 'a result = "string + 'a"

abbreviation Ok :: "'a \<Rightarrow> 'a result" where
  "Ok \<equiv> Inr"

abbreviation Err :: "string \<Rightarrow> 'a result" where
  "Err \<equiv> Inl"

definition in_signed :: "nat \<Rightarrow> int \<Rightarrow> bool" where
  "in_signed w x \<longleftrightarrow> - (2 ^ (w - 1)) \<le> x \<and> x < 2 ^ (w - 1)"

section \<open>Checked conversions\<close>

text \<open>\<open>i32::try_from\<close> of a \<open>usize\<close> or of a \<open>u32\<close>, and \<open>to_usize\<close> of a signed integer.\<close>

definition i32_try_from :: "nat \<Rightarrow> i32 option" where
  "i32_try_from n = (if n < 2 ^ 31 then Some (int n) else None)"

definition to_usize :: "int \<Rightarrow> usize option" where
  "to_usize x = (if 0 \<le> x then Some (nat x) else None)"

definition unwrap_or :: "'a \<Rightarrow> 'a option \<Rightarrow> 'a" where
  "unwrap_or d v = (case v of None \<Rightarrow> d | Some x \<Rightarrow> x)"

definition or_else :: "'a option \<Rightarrow> 'a option \<Rightarrow> 'a option" where
  "or_else a b = (case a of None \<Rightarrow> b | Some x \<Rightarrow> Some x)"

lemma unwrap_or_simps [simp]:
  "unwrap_or d None = d"
  "unwrap_or d (Some x) = x"
  by (simp_all add: unwrap_or_def)

lemma or_else_simps [simp]:
  "or_else None b = b"
  "or_else (Some x) b = Some x"
  "or_else a None = a"
  by (simp_all add: or_else_def split: option.split)

lemma i32_try_from_small [conv_simps]: "n < 2 ^ 31 \<Longrightarrow> unwrap_or 0 (i32_try_from n) = int n"
  by (simp add: i32_try_from_def)

lemma i32_try_from_range: "in_signed 32 (unwrap_or 0 (i32_try_from n))"
  by (auto simp: i32_try_from_def in_signed_def)

lemma to_usize_nonneg [conv_simps]: "0 \<le> x \<Longrightarrow> unwrap_or d (to_usize x) = nat x"
  by (simp add: to_usize_def)

lemma to_usize_neg [conv_simps]: "x < 0 \<Longrightarrow> unwrap_or d (to_usize x) = d"
  by (simp add: to_usize_def)

section \<open>Lists\<close>

text \<open>\<open>slice::chunks\<close>: consecutive pieces of \<open>n\<close> elements, the last one shorter. Rust panics
  for \<open>n = 0\<close>; the code only uses a positive constant.\<close>

function chunks :: "nat \<Rightarrow> 'a list \<Rightarrow> 'a list list" where
  "chunks n xs = (if xs = [] \<or> n = 0 then [] else take n xs # chunks n (drop n xs))"
  by pat_completeness auto
termination
  by (relation "measure (\<lambda>(n, xs). length xs)") auto

declare chunks.simps [simp del]

lemma chunks_Nil [simp]: "chunks n [] = []"
  by (simp add: chunks.simps)

lemma chunks_step: "0 < n \<Longrightarrow> xs \<noteq> [] \<Longrightarrow> chunks n xs = take n xs # chunks n (drop n xs)"
  by (subst chunks.simps) simp

lemma concat_chunks [simp]: "0 < n \<Longrightarrow> concat (chunks n xs) = xs"
proof (induction n xs rule: chunks.induct)
  case (1 n xs)
  then show ?case
    by (cases "xs = []") (simp_all add: chunks_step)
qed

lemma chunks_sizes: "ys \<in> set (chunks n xs) \<Longrightarrow> ys \<noteq> [] \<and> length ys \<le> n"
proof (induction n xs rule: chunks.induct)
  case (1 n xs)
  show ?case
  proof (cases "xs = [] \<or> n = 0")
    case True
    with "1.prems" show ?thesis by (auto simp: chunks.simps)
  next
    case False
    with "1.prems" have "ys = take n xs \<or> ys \<in> set (chunks n (drop n xs))"
      by (simp add: chunks_step)
    with False "1.IH" show ?thesis by auto
  qed
qed

lemma length_filter_split: "length (filter P xs) + length (filter (\<lambda>x. \<not> P x) xs) = length xs"
  by (induction xs) auto

lemma filter_eq_length_iff: "length (filter P xs) = length xs \<longleftrightarrow> list_all P xs"
  by (metis Ball_set filter_True length_filter_less order_less_irrefl)

lemma length_filter_map_le:
  "(\<And>x. x \<in> set xs \<Longrightarrow> P (f x) \<Longrightarrow> P x) \<Longrightarrow> length (filter P (map f xs)) \<le> length (filter P xs)"
  by (induction xs) auto

lemma length_filter_map_less:
  assumes "\<And>x. x \<in> set xs \<Longrightarrow> P (f x) \<Longrightarrow> P x"
    and "y \<in> set xs" and "P y" and "\<not> P (f y)"
  shows "length (filter P (map f xs)) < length (filter P xs)"
  using assms
proof (induction xs)
  case Nil
  then show ?case by simp
next
  case (Cons x xs)
  have le: "length (filter P (map f xs)) \<le> length (filter P xs)"
    using Cons.prems(1) by (intro length_filter_map_le) auto
  show ?case
  proof (cases "y = x")
    case True
    with le Cons.prems(3,4) show ?thesis by simp
  next
    case False
    with Cons have "length (filter P (map f xs)) < length (filter P xs)" by auto
    with Cons.prems(1) show ?thesis by (auto simp: less_Suc_eq)
  qed
qed

lemma take_map_comm: "take n (map f xs) = map f (take n xs)"
  by (rule take_map)

lemma distinct_takeI [intro]: "distinct xs \<Longrightarrow> distinct (take n xs)"
  by (rule distinct_take)

end
