(* ===== verification/RustText.thy ===== *)
theory RustText
  imports Prelude "HOL-Library.Sublist"
begin

text \<open>
  The string operations of the Rust standard library the program uses. A \<open>String\<close> is the list of
  its UTF-8 bytes (a \<open>char\<close> of HOL is a byte), so \<open>length\<close> is \<open>str::len\<close>; characters in Rust's sense
  are the maximal groups of a leading byte and its continuation bytes.
\<close>

section \<open>Bytes and characters\<close>

definition is_continuation :: "char \<Rightarrow> bool" where
  "is_continuation c \<longleftrightarrow> 128 \<le> (of_char c :: nat) \<and> (of_char c :: nat) < 192"

definition is_ascii :: "char \<Rightarrow> bool" where
  "is_ascii c \<longleftrightarrow> (of_char c :: nat) < 128"

text \<open>\<open>str::is_char_boundary\<close>: an index at which a slice may start or end.\<close>

definition is_char_boundary :: "string \<Rightarrow> nat \<Rightarrow> bool" where
  "is_char_boundary s i \<longleftrightarrow>
     i = 0 \<or> i = length s \<or> (i < length s \<and> \<not> is_continuation (s ! i))"

text \<open>\<open>&s[a..b]\<close>; \<open>None\<close> is the panic of a slice off a boundary or out of range.\<close>

definition str_slice :: "string \<Rightarrow> nat \<Rightarrow> nat \<Rightarrow> string option" where
  "str_slice s a b =
     (if a \<le> b \<and> b \<le> length s \<and> is_char_boundary s a \<and> is_char_boundary s b
      then Some (take (b - a) (drop a s)) else None)"

lemma ascii_not_continuation: "is_ascii c \<Longrightarrow> \<not> is_continuation c"
  by (simp add: is_ascii_def is_continuation_def)

lemma ascii_boundary: "list_all is_ascii s \<Longrightarrow> i \<le> length s \<Longrightarrow> is_char_boundary s i"
  by (auto simp: is_char_boundary_def list_all_length ascii_not_continuation le_less)

text \<open>\<open>str::chars\<close>, each character given by its bytes.\<close>

function utf8_chars :: "string \<Rightarrow> string list" where
  "utf8_chars [] = []"
| "utf8_chars (b # bs) =
     (b # takeWhile is_continuation bs) # utf8_chars (dropWhile is_continuation bs)"
  by pat_completeness auto
termination
  by (relation "measure length") (auto simp: le_imp_less_Suc length_dropWhile_le)

lemma concat_utf8_chars [simp]: "concat (utf8_chars s) = s"
  by (induction s rule: utf8_chars.induct) simp_all

lemma utf8_chars_ascii: "list_all is_ascii s \<Longrightarrow> utf8_chars s = map (\<lambda>c. [c]) s"
proof (induction s rule: utf8_chars.induct)
  case (2 b bs)
  then have all: "list_all is_ascii bs" by simp
  then have tw: "takeWhile is_continuation bs = []"
    by (cases bs) (auto simp: ascii_not_continuation)
  then have dw: "dropWhile is_continuation bs = bs"
    using takeWhile_dropWhile_id [of is_continuation bs] by simp
  from 2 all dw have "utf8_chars bs = map (\<lambda>c. [c]) bs" by simp
  with tw dw show ?case by simp
qed simp

section \<open>Case and search\<close>

definition to_ascii_lowercase :: "string \<Rightarrow> string" where
  "to_ascii_lowercase = map (\<lambda>c. if 65 \<le> (of_char c :: nat) \<and> (of_char c :: nat) \<le> 90
                                 then char_of ((of_char c :: nat) + 32) else c)"

fun contains :: "string \<Rightarrow> string \<Rightarrow> bool" where
  "contains [] pat = (pat = [])"
| "contains (c # s) pat = (prefix pat (c # s) \<or> contains s pat)"

lemma contains_sublist: "contains s pat \<longleftrightarrow> sublist pat s"
  by (induction s) (auto simp: sublist_Cons_right)

lemma contains_append: "contains s pat \<Longrightarrow> contains (a @ s @ b) pat"
  by (simp add: contains_sublist) (meson sublist_appendI sublist_order.order_trans)

lemma to_ascii_lowercase_append:
  "to_ascii_lowercase (a @ b) = to_ascii_lowercase a @ to_ascii_lowercase b"
  by (simp add: to_ascii_lowercase_def)

lemma to_ascii_lowercase_idem [simp]:
  "to_ascii_lowercase (to_ascii_lowercase s) = to_ascii_lowercase s"
  by (auto simp: to_ascii_lowercase_def)

text \<open>\<open>str::trim\<close> on a string without non-ASCII white space.\<close>

definition is_ascii_space :: "char \<Rightarrow> bool" where
  "is_ascii_space c \<longleftrightarrow> (of_char c :: nat) \<in> {9, 10, 11, 12, 13, 32}"

definition str_trim :: "string \<Rightarrow> string" where
  "str_trim s = rev (dropWhile is_ascii_space (rev (dropWhile is_ascii_space s)))"

section \<open>Integers\<close>

definition digit_val :: "char \<Rightarrow> nat option" where
  "digit_val c = (let n = (of_char c :: nat) in if 48 \<le> n \<and> n \<le> 57 then Some (n - 48) else None)"

fun digits_acc :: "nat \<Rightarrow> string \<Rightarrow> nat option" where
  "digits_acc acc [] = Some acc"
| "digits_acc acc (c # s) =
     (case digit_val c of None \<Rightarrow> None | Some d \<Rightarrow> digits_acc (10 * acc + d) s)"

definition parse_digits :: "string \<Rightarrow> nat option" where
  "parse_digits s = (if s = [] then None else digits_acc 0 s)"

text \<open>\<open>str::parse\<close> at an unsigned and at a signed type of the given width: one leading \<open>+\<close> is
  accepted, a leading \<open>-\<close> only when signed, and a value out of range is an error.\<close>

definition parse_unsigned :: "nat \<Rightarrow> string \<Rightarrow> nat option" where
  "parse_unsigned w s =
     (case parse_digits (case s of c # t \<Rightarrow> if c = CHR ''+'' then t else s | [] \<Rightarrow> s) of
        None \<Rightarrow> None
      | Some n \<Rightarrow> if n < 2 ^ w then Some n else None)"

definition parse_signed :: "nat \<Rightarrow> string \<Rightarrow> int option" where
  "parse_signed w s =
     (let neg = (case s of c # _ \<Rightarrow> c = CHR ''-'' | [] \<Rightarrow> False);
          body = (case s of c # t \<Rightarrow> if c = CHR ''-'' \<or> c = CHR ''+'' then t else s | [] \<Rightarrow> s)
      in case parse_digits body of
           None \<Rightarrow> None
         | Some n \<Rightarrow> let x = (if neg then - int n else int n)
                      in if in_signed w x then Some x else None)"

text \<open>The decimal text of an integer, as \<open>Display\<close> writes it.\<close>

fun show_nat :: "nat \<Rightarrow> string" where
  "show_nat n = (if n < 10 then [char_of (48 + n)] else show_nat (n div 10) @ [char_of (48 + n mod 10)])"

declare show_nat.simps [simp del]

definition show_int :: "int \<Rightarrow> string" where
  "show_int x = (if x < 0 then CHR ''-'' # show_nat (nat (- x)) else show_nat (nat x))"

lemma digit_val_char: "d < 10 \<Longrightarrow> digit_val (char_of (48 + d)) = Some d"
  by (simp add: digit_val_def Let_def)

lemma digits_acc_append:
  "digits_acc acc (s @ t) = (case digits_acc acc s of None \<Rightarrow> None | Some a \<Rightarrow> digits_acc a t)"
  by (induction s arbitrary: acc) (auto split: option.split)

lemma digits_acc_show_nat: "digits_acc 0 (show_nat n) = Some n"
proof (induction n rule: show_nat.induct)
  case (1 n)
  show ?case
  proof (cases "n < 10")
    case True
    then show ?thesis by (simp add: show_nat.simps [of n] digit_val_char)
  next
    case False
    with "1.IH" have "digits_acc 0 (show_nat (n div 10)) = Some (n div 10)" by simp
    with False show ?thesis
      by (simp add: show_nat.simps [of n] digits_acc_append digit_val_char)
  qed
qed

lemma show_nat_nonempty: "show_nat n \<noteq> []"
  by (subst show_nat.simps) simp

lemma parse_digits_show_nat: "parse_digits (show_nat n) = Some n"
  by (simp add: parse_digits_def show_nat_nonempty digits_acc_show_nat)

lemma parse_digits_head: "parse_digits (c # s) = Some n \<Longrightarrow> c \<noteq> CHR ''-'' \<and> c \<noteq> CHR ''+''"
  by (auto simp: parse_digits_def digit_val_def)

lemma parse_unsigned_digits:
  "parse_digits s = Some n \<Longrightarrow> n < 2 ^ w \<Longrightarrow> parse_unsigned w s = Some n"
  by (cases s) (auto simp: parse_unsigned_def dest: parse_digits_head)

lemma parse_signed_digits:
  "parse_digits s = Some n \<Longrightarrow> in_signed w (int n) \<Longrightarrow> parse_signed w s = Some (int n)"
  by (cases s) (auto simp: parse_signed_def Let_def dest: parse_digits_head)

lemma parse_signed_minus:
  "parse_digits s = Some n \<Longrightarrow> in_signed w (- int n) \<Longrightarrow> parse_signed w (CHR ''-'' # s) = Some (- int n)"
  by (simp add: parse_signed_def)

lemma parse_show_int: "in_signed w x \<Longrightarrow> parse_signed w (show_int x) = Some x"
proof (cases "x < 0")
  case True
  moreover assume "in_signed w x"
  ultimately show ?thesis
    using parse_signed_minus [OF parse_digits_show_nat, of w "nat (- x)"]
    by (simp add: show_int_def)
next
  case False
  moreover assume "in_signed w x"
  ultimately show ?thesis
    using parse_signed_digits [OF parse_digits_show_nat, of w "nat x"]
    by (simp add: show_int_def)
qed

lemma parse_signed_range: "parse_signed w s = Some x \<Longrightarrow> in_signed w x"
  by (auto simp: parse_signed_def Let_def split: option.splits if_splits)

lemma parse_unsigned_range: "parse_unsigned w s = Some n \<Longrightarrow> n < 2 ^ w"
  by (auto simp: parse_unsigned_def split: option.splits if_splits)

section \<open>Trimming\<close>

lemma str_trim_pad:
  assumes "list_all is_ascii_space a" and "list_all is_ascii_space b"
    and "list_all (\<lambda>c. \<not> is_ascii_space c) m" and "m \<noteq> []"
  shows "str_trim (a @ m @ b) = m"
proof -
  have drop: "dropWhile is_ascii_space (x @ y @ z) = y @ z"
    if "list_all is_ascii_space x" "list_all (\<lambda>c. \<not> is_ascii_space c) y" "y \<noteq> []" for x y z
    using that by (induction x) (auto simp: neq_Nil_conv)
  from drop [of a m b] drop [of "rev b" "rev m" "[]"] assms show ?thesis
    by (simp add: str_trim_def)
qed

lemma show_nat_no_space: "list_all (\<lambda>c. \<not> is_ascii_space c) (show_nat n)"
proof (induction n rule: show_nat.induct)
  case (1 n)
  have "\<not> is_ascii_space (char_of (48 + d))" if "d < (10 :: nat)" for d
    using that by (simp add: is_ascii_space_def)
  then show ?case using 1 by (subst show_nat.simps) simp
qed

end
