(* ===== verification/Float64.thy ===== *)
theory Float64
  imports Prelude "HOL-Library.Log_Nat" Complex_Main
begin

text \<open>
  The \<open>f64\<close> arithmetic the program performs: IEEE 754 binary64 with rounding to nearest, ties to
  even. A finite value is the rational number it denotes, so the two zeros are one value and all
  NaNs are one value: the program never looks at the sign of a zero or at a NaN payload. Every
  operation is the exact rational operation followed by \<open>round_f64\<close>, which is how the standard
  defines it. Rounding is shown to be monotone and to leave representable numbers alone, which is
  all the other theories use.
\<close>

section \<open>Rounding to an integer\<close>

definition rne :: "rat \<Rightarrow> int" where
  "rne x = (let f = \<lfloor>x\<rfloor>; r = x - of_int f
            in if r < 1 / 2 then f else if 1 / 2 < r then f + 1 else if even f then f else f + 1)"

lemma rne_of_int [simp]: "rne (of_int m) = m"
  by (simp add: rne_def)

lemma rne_bounds: "\<lfloor>x\<rfloor> \<le> rne x" "rne x \<le> \<lfloor>x\<rfloor> + 1"
  by (simp_all add: rne_def Let_def)

lemma rne_mono:
  assumes "x \<le> y"
  shows "rne x \<le> rne y"
proof (cases "\<lfloor>x\<rfloor> = \<lfloor>y\<rfloor>")
  case True
  with assms show ?thesis by (auto simp: rne_def Let_def)
next
  case False
  from assms have "\<lfloor>x\<rfloor> \<le> \<lfloor>y\<rfloor>" by (rule floor_mono)
  with False have "\<lfloor>x\<rfloor> + 1 \<le> \<lfloor>y\<rfloor>" by simp
  with rne_bounds [of x] rne_bounds [of y] show ?thesis by linarith
qed

lemma rne_ge: "of_int m \<le> x \<Longrightarrow> m \<le> rne x"
  using rne_mono [of "of_int m" x] by simp

lemma rne_le: "x \<le> of_int m \<Longrightarrow> rne x \<le> m"
  using rne_mono [of x "of_int m"] by simp

section \<open>The binary exponent\<close>

definition ilog2 :: "rat \<Rightarrow> int" where
  "ilog2 q = (let (n, d) = quotient_of q; k = bitlen n - bitlen d
              in if 2 powi k \<le> q then k else k - 1)"

lemma powi_mono2: "i \<le> j \<Longrightarrow> (2::rat) powi i \<le> 2 powi j"
  by (simp add: power_int_increasing)

lemma powi_less2: "(2::rat) powi i < 2 powi j \<Longrightarrow> i < j"
  using powi_mono2 [of j i] by (meson not_le)

lemma powi_add2: "(2::rat) powi (i + j) = 2 powi i * 2 powi j"
  by (simp add: power_int_add)

lemma powi_split: "i \<le> j \<Longrightarrow> (2::rat) powi j = 2 ^ nat (j - i) * 2 powi i"
  using powi_add2 [of "j - i" i] by (simp add: power_int_def [of _ "j - i"])

lemma bitlen_bounds_powi:
  assumes "0 < n"
  shows "2 powi (bitlen n - 1) \<le> (of_int n :: rat)" and "(of_int n :: rat) < 2 powi bitlen n"
proof -
  from assms have bl: "0 < bitlen n" using bitlen_nonneg [of n] bitlen_eq_zero_iff [of n] by linarith
  from bitlen_bounds [OF assms]
  have lo: "2 ^ nat (bitlen n - 1) \<le> n" and hi: "n < 2 ^ nat (bitlen n)" by auto
  from bl have e1: "(2::rat) powi (bitlen n - 1) = 2 ^ nat (bitlen n - 1)"
    and e2: "(2::rat) powi bitlen n = 2 ^ nat (bitlen n)"
    by (simp_all add: power_int_def)
  from lo have "(of_int (2 ^ nat (bitlen n - 1)) :: rat) \<le> of_int n" by (simp only: of_int_le_iff)
  then show "2 powi (bitlen n - 1) \<le> (of_int n :: rat)" by (simp add: e1)
  from hi have "(of_int n :: rat) < of_int (2 ^ nat (bitlen n))" by (simp only: of_int_less_iff)
  then show "(of_int n :: rat) < 2 powi bitlen n" by (simp add: e2)
qed

lemma ilog2_bounds:
  assumes "0 < q"
  shows "2 powi ilog2 q \<le> q" and "q < 2 powi (ilog2 q + 1)"
proof -
  obtain n d where nd: "quotient_of q = (n, d)" by fastforce
  then have d: "0 < d" and q: "q = of_int n / of_int d"
    using quotient_of_denom_pos quotient_of_div by auto
  with assms have n: "0 < n" by (simp add: zero_less_divide_iff)
  let ?k = "bitlen n - bitlen d"
  have "q < 2 powi bitlen n / 2 powi (bitlen d - 1)"
    using bitlen_bounds_powi [OF n] bitlen_bounds_powi [OF d] d n unfolding q
    by (intro frac_less) auto
  then have hi: "q < 2 powi (?k + 1)"
    by (simp add: power_int_diff [symmetric] algebra_simps)
  have "2 powi (bitlen n - 1) / 2 powi bitlen d < q"
    using bitlen_bounds_powi [OF n] bitlen_bounds_powi [OF d] d n unfolding q
    by (intro frac_less2) auto
  then have lo: "2 powi (?k - 1) \<le> q"
    by (simp add: power_int_diff [symmetric] algebra_simps)
  show "2 powi ilog2 q \<le> q" "q < 2 powi (ilog2 q + 1)"
    using lo hi by (auto simp: ilog2_def nd Let_def)
qed

lemma ilog2_unique:
  assumes "2 powi k \<le> q" and "q < 2 powi (k + 1)"
  shows "ilog2 q = k"
proof -
  have q: "0 < q" using assms(1) by (meson less_le_trans zero_less_numeral zero_less_power_int)
  from assms ilog2_bounds [OF q] have "2 powi k < (2::rat) powi (ilog2 q + 1)"
    and "2 powi ilog2 q < (2::rat) powi (k + 1)" by auto
  then have "k < ilog2 q + 1" and "ilog2 q < k + 1" by (blast dest: powi_less2)+
  then show ?thesis by simp
qed

lemma ilog2_mono: "0 < p \<Longrightarrow> p \<le> q \<Longrightarrow> ilog2 p \<le> ilog2 q"
proof -
  assume p: "0 < p" "p \<le> q"
  then have "2 powi ilog2 p < (2::rat) powi (ilog2 q + 1)"
    using ilog2_bounds(1) [of p] ilog2_bounds(2) [of q] by linarith
  then show ?thesis using powi_less2 by force
qed


section \<open>Rounding to 53 significant bits\<close>

text \<open>The exponent of the last place: 52 below the leading bit, but never below the subnormals'.\<close>

definition f64_exp :: "rat \<Rightarrow> int" where
  "f64_exp q = max (- 1074) (ilog2 \<bar>q\<bar> - 52)"

definition round_rat :: "rat \<Rightarrow> rat" where
  "round_rat q =
     (if q = 0 then 0 else let s = 2 powi f64_exp q in of_int (rne (q / s)) * s)"

lemma round_rat_0 [simp]: "round_rat 0 = 0"
  by (simp add: round_rat_def)

lemma round_rat_ge:
  assumes "of_int m * 2 powi f64_exp q \<le> q" and "q \<noteq> 0"
  shows "of_int m * 2 powi f64_exp q \<le> round_rat q"
proof -
  let ?s = "(2::rat) powi f64_exp q"
  have s: "0 < ?s" by simp
  from assms(1) s have "of_int m \<le> q / ?s" by (simp add: pos_le_divide_eq)
  then have "m \<le> rne (q / ?s)" by (rule rne_ge)
  then have "(of_int m :: rat) \<le> of_int (rne (q / ?s))" by simp
  with s assms(2) show ?thesis by (simp add: round_rat_def Let_def)
qed

lemma round_rat_le:
  assumes "q \<le> of_int m * 2 powi f64_exp q" and "q \<noteq> 0"
  shows "round_rat q \<le> of_int m * 2 powi f64_exp q"
proof -
  let ?s = "(2::rat) powi f64_exp q"
  have s: "0 < ?s" by simp
  from assms(1) s have "q / ?s \<le> of_int m" by (simp add: pos_divide_le_eq)
  then have "rne (q / ?s) \<le> m" by (rule rne_le)
  then have "(of_int (rne (q / ?s)) :: rat) \<le> of_int m" by simp
  with s assms(2) show ?thesis by (simp add: round_rat_def Let_def)
qed

text \<open>A number of at most 53 bits above the subnormal threshold is its own rounding.\<close>

lemma round_rat_exact:
  assumes m: "\<bar>m\<bar> \<le> 2 ^ 53" and e: "- 1074 \<le> e" and q: "q = of_int m * 2 powi e"
  shows "round_rat q = q"
proof (cases "m = 0")
  case True
  with q show ?thesis by simp
next
  case False
  have exact: "round_rat q = q" if m': "\<bar>m'\<bar> < 2 ^ 53" and q': "q = of_int m' * 2 powi e'"
    and e': "- 1074 \<le> e'" and nz: "m' \<noteq> 0" for m' e'
  proof -
    have "(of_int \<bar>m'\<bar> :: rat) < of_int (2 ^ 53)" using m' by (simp only: of_int_less_iff)
    then have "\<bar>q\<bar> < 2 powi 53 * 2 powi e'"
      using q' by (simp add: abs_mult)
    then have "2 powi ilog2 \<bar>q\<bar> < (2::rat) powi (53 + e')"
      using ilog2_bounds(1) [of "\<bar>q\<bar>"] nz q' by (simp add: powi_add2)
    then have "ilog2 \<bar>q\<bar> < 53 + e'" by (rule powi_less2)
    with e' have le: "f64_exp q \<le> e'" by (simp add: f64_exp_def)
    have "q / 2 powi f64_exp q = of_int m' * 2 powi (e' - f64_exp q)"
      by (simp add: q' power_int_diff)
    also have "\<dots> = of_int (m' * 2 ^ nat (e' - f64_exp q))"
      using le by (simp add: power_int_def)
    finally have "q / 2 powi f64_exp q = of_int (m' * 2 ^ nat (e' - f64_exp q))" .
    then have "of_int (rne (q / 2 powi f64_exp q)) = q / 2 powi f64_exp q" by (simp only: rne_of_int)
    then show ?thesis by (simp add: round_rat_def Let_def)
  qed
  show ?thesis
  proof (cases "\<bar>m\<bar> < 2 ^ 53")
    case True
    then show ?thesis using exact q e False by blast
  next
    case big: False
    with m have "m = 2 ^ 53 \<or> m = - (2 ^ 53)" by linarith
    then obtain m' where m': "m = 2 * m'" "\<bar>m'\<bar> < 2 ^ 53" "m' \<noteq> 0"
      by (elim disjE) (force intro: that [of "2 ^ 52"], force intro: that [of "- (2 ^ 52)"])
    have "q = of_int m' * 2 powi (e + 1)"
      using q m'(1) by (simp add: power_int_add)
    then show ?thesis using exact [of m' "e + 1"] m' e by simp
  qed
qed

lemma f64_exp_mono: "0 < p \<Longrightarrow> p \<le> q \<Longrightarrow> f64_exp p \<le> f64_exp q"
  using ilog2_mono [of p q] by (simp add: f64_exp_def)

lemma rne_minus: "rne (- x) = - rne x"
proof (cases "of_int \<lfloor>x\<rfloor> = x")
  case True
  then obtain m where "x = of_int m" by metis
  then show ?thesis using rne_of_int [of "- m"] by simp
next
  case False
  then have "\<lfloor>- x\<rfloor> = - \<lfloor>x\<rfloor> - 1"
    using floor_correct [of x] by (intro floor_unique) (auto simp: order.order_iff_strict)
  then show ?thesis by (auto simp: rne_def Let_def)
qed

lemma round_rat_minus: "round_rat (- q) = - round_rat q"
  by (simp add: round_rat_def f64_exp_def Let_def rne_minus)

lemma round_rat_nonneg: "0 \<le> q \<Longrightarrow> 0 \<le> round_rat q"
  using round_rat_ge [of 0 q] by (cases "q = 0") simp_all

lemma round_rat_mono_pos:
  assumes p: "0 < p" and pq: "p \<le> q"
  shows "round_rat p \<le> round_rat q"
proof (cases "f64_exp p = f64_exp q")
  case True
  let ?s = "(2::rat) powi f64_exp q"
  have "p / ?s \<le> q / ?s" using pq by (simp add: divide_right_mono)
  then have "rne (p / ?s) \<le> rne (q / ?s)" by (rule rne_mono)
  with p pq True show ?thesis by (simp add: round_rat_def Let_def)
next
  case False
  from p pq have q: "0 < q" by simp
  let ?k = "ilog2 q"
  from False f64_exp_mono [OF p pq] have lt: "f64_exp p < f64_exp q" by simp
  with p q have k: "f64_exp q = ?k - 52" "ilog2 p < ?k" by (auto simp: f64_exp_def)
  have "p < 2 powi (ilog2 p + 1)" by (rule ilog2_bounds(2) [OF p])
  also have "\<dots> \<le> 2 powi ?k" using k(2) by (intro powi_mono2) simp
  finally have "p \<le> 2 powi ?k" by simp
  moreover have pk: "(2::rat) powi ?k = of_int (2 ^ nat (?k - f64_exp p)) * 2 powi f64_exp p"
    using lt k powi_split [of "f64_exp p" ?k] by simp
  ultimately have "round_rat p \<le> 2 powi ?k"
    using round_rat_le [of p "2 ^ nat (?k - f64_exp p)"] p by simp
  also have "\<dots> \<le> round_rat q"
  proof -
    have "(2::rat) powi ?k = of_int (2 ^ 52) * 2 powi f64_exp q"
      using powi_add2 [of 52 "?k - 52"] k(1) by simp
    with round_rat_ge [of "2 ^ 52" q] ilog2_bounds(1) [OF q] q show ?thesis by simp
  qed
  finally show ?thesis .
qed

lemma round_rat_mono: "p \<le> q \<Longrightarrow> round_rat p \<le> round_rat q"
proof -
  assume pq: "p \<le> q"
  consider "0 < p" | "p \<le> 0" "0 \<le> q" | "q < 0" by linarith
  then show ?thesis
  proof cases
    case 1
    then show ?thesis using pq by (rule round_rat_mono_pos)
  next
    case 2
    then have "0 \<le> round_rat (- p)" "0 \<le> round_rat q" by (simp_all add: round_rat_nonneg)
    then show ?thesis by (simp add: round_rat_minus)
  next
    case 3
    with pq round_rat_mono_pos [of "- q" "- p"] show ?thesis by (simp add: round_rat_minus)
  qed
qed

lemma round_rat_int: "\<bar>m\<bar> \<le> 2 ^ 53 \<Longrightarrow> round_rat (of_int m) = of_int m"
  by (rule round_rat_exact [of m 0]) simp_all

lemma round_rat_half_int: "\<bar>m\<bar> \<le> 2 ^ 53 \<Longrightarrow> round_rat (of_int m / 2) = of_int m / 2"
  by (rule round_rat_exact [of m "- 1"]) (simp_all add: power_int_minus field_simps)

section \<open>Values and operations\<close>

datatype f64 = NaN | Infinite bool | Finite rat

text \<open>\<open>Infinite True\<close> is the negative infinity.\<close>

definition round_f64 :: "rat \<Rightarrow> f64" where
  "round_f64 q =
     (let r = round_rat q
      in if 2 ^ 1024 \<le> r then Infinite False
         else if r \<le> - (2 ^ 1024) then Infinite True else Finite r)"

definition f64_valid :: "f64 \<Rightarrow> bool" where
  "f64_valid x = (case x of Finite q \<Rightarrow> round_f64 q = Finite q | _ \<Rightarrow> True)"

fun f64_add :: "f64 \<Rightarrow> f64 \<Rightarrow> f64" where
  "f64_add (Finite a) (Finite b) = round_f64 (a + b)"
| "f64_add (Infinite s) (Infinite t) = (if s = t then Infinite s else NaN)"
| "f64_add (Infinite s) (Finite b) = Infinite s"
| "f64_add (Finite a) (Infinite t) = Infinite t"
| "f64_add _ _ = NaN"

fun f64_mul :: "f64 \<Rightarrow> f64 \<Rightarrow> f64" where
  "f64_mul (Finite a) (Finite b) = round_f64 (a * b)"
| "f64_mul (Infinite s) (Infinite t) = Infinite (s \<noteq> t)"
| "f64_mul (Infinite s) (Finite b) = (if b = 0 then NaN else Infinite (s \<noteq> (b < 0)))"
| "f64_mul (Finite a) (Infinite t) = (if a = 0 then NaN else Infinite ((a < 0) \<noteq> t))"
| "f64_mul _ _ = NaN"

text \<open>A zero divisor counts as the positive zero; the program only divides by constants above zero
  and by powers of ten.\<close>

fun f64_div :: "f64 \<Rightarrow> f64 \<Rightarrow> f64" where
  "f64_div (Finite a) (Finite b) =
     (if b = 0 then if a = 0 then NaN else Infinite (a < 0) else round_f64 (a / b))"
| "f64_div (Infinite s) (Finite b) = Infinite (s \<noteq> (b < 0))"
| "f64_div (Finite a) (Infinite t) = Finite 0"
| "f64_div _ _ = NaN"

fun f64_lt :: "f64 \<Rightarrow> f64 \<Rightarrow> bool" where
  "f64_lt (Finite a) (Finite b) = (a < b)"
| "f64_lt (Infinite s) (Infinite t) = (s \<and> \<not> t)"
| "f64_lt (Infinite s) (Finite b) = s"
| "f64_lt (Finite a) (Infinite t) = (\<not> t)"
| "f64_lt _ _ = False"

text \<open>\<open>f64::max\<close> and \<open>f64::min\<close> return the other operand when one is a NaN.\<close>

definition f64_max :: "f64 \<Rightarrow> f64 \<Rightarrow> f64" where
  "f64_max a b = (if a = NaN then b else if b = NaN then a else if f64_lt a b then b else a)"

definition f64_min :: "f64 \<Rightarrow> f64 \<Rightarrow> f64" where
  "f64_min a b = (if a = NaN then b else if b = NaN then a else if f64_lt b a then b else a)"

text \<open>\<open>f64::round\<close>: to the nearest integer, ties away from zero.\<close>

fun f64_round :: "f64 \<Rightarrow> f64" where
  "f64_round (Finite q) =
     Finite (if 0 \<le> q then of_int \<lfloor>q + 1 / 2\<rfloor> else - of_int \<lfloor>- q + 1 / 2\<rfloor>)"
| "f64_round x = x"

text \<open>The saturating cast \<open>as u64\<close>, and the conversions \<open>f64::from(u32)\<close> and \<open>i128 as f64\<close>.\<close>

fun f64_as_u64 :: "f64 \<Rightarrow> nat" where
  "f64_as_u64 NaN = 0"
| "f64_as_u64 (Infinite s) = (if s then 0 else 2 ^ 64 - 1)"
| "f64_as_u64 (Finite q) = min (nat \<lfloor>q\<rfloor>) (2 ^ 64 - 1)"

definition f64_of_int :: "int \<Rightarrow> f64" where
  "f64_of_int n = round_f64 (of_int n)"

section \<open>Facts about the operations\<close>

lemma round_f64_finite: "\<bar>round_rat q\<bar> < 2 ^ 1024 \<Longrightarrow> round_f64 q = Finite (round_rat q)"
  by (auto simp: round_f64_def Let_def abs_if split: if_splits)

lemma round_f64_exact: "round_rat q = q \<Longrightarrow> \<bar>q\<bar> < 2 ^ 1024 \<Longrightarrow> round_f64 q = Finite q"
  using round_f64_finite [of q] by simp

lemma round_f64_small_int:
  assumes "\<bar>m\<bar> \<le> 2 ^ 53"
  shows "round_f64 (of_int m) = Finite (of_int m)"
proof (rule round_f64_exact)
  show "round_rat (of_int m) = of_int m" using assms by (rule round_rat_int)
  have "(of_int \<bar>m\<bar> :: rat) \<le> of_int (2 ^ 53)" using assms by (simp only: of_int_le_iff)
  then show "\<bar>of_int m :: rat\<bar> < 2 ^ 1024" by simp
qed

lemma f64_of_int_small [simp]: "\<bar>m\<bar> \<le> 2 ^ 53 \<Longrightarrow> f64_of_int m = Finite (of_int m)"
  by (simp add: f64_of_int_def round_f64_small_int)

lemma f64_max_Finite [simp]: "f64_max (Finite a) (Finite b) = Finite (max a b)"
  by (simp add: f64_max_def max_def)

lemma f64_min_Finite [simp]: "f64_min (Finite a) (Finite b) = Finite (min a b)"
  by (auto simp: f64_min_def min_def)

lemma f64_round_of_int [simp]: "f64_round (Finite (of_int m)) = Finite (of_int m)"
proof -
  have "\<lfloor>of_int m + 1 / 2 :: rat\<rfloor> = m" "\<lfloor>- of_int m + 1 / 2 :: rat\<rfloor> = - m"
    by (simp_all add: floor_eq_iff)
  then show ?thesis by simp
qed

text \<open>Rounding a value between two representable numbers stays between them.\<close>

lemma round_f64_between:
  assumes "round_rat lo = lo" and "round_rat hi = hi" and "lo \<le> q" and "q \<le> hi"
    and "- (2 ^ 1024) < lo" and "hi < 2 ^ 1024"
  shows "\<exists>r. round_f64 q = Finite r \<and> lo \<le> r \<and> r \<le> hi"
proof -
  have "lo \<le> round_rat q" "round_rat q \<le> hi"
    using round_rat_mono [of lo q] round_rat_mono [of q hi] assms by simp_all
  with assms have "round_f64 q = Finite (round_rat q)"
    by (intro round_f64_finite) (simp add: abs_less_iff)
  with \<open>lo \<le> round_rat q\<close> \<open>round_rat q \<le> hi\<close> show ?thesis by blast
qed

lemma small_lt_max: "q \<le> 2 ^ 53 \<Longrightarrow> q < (2 ^ 1024 :: rat)"
  by (erule le_less_trans) simp

lemma round_f64_between_small:
  assumes "round_rat lo = lo" and "round_rat hi = hi" and "0 \<le> lo" and "hi \<le> 2 ^ 53"
    and "lo \<le> q" and "q \<le> hi"
  obtains r where "round_f64 q = Finite r" and "lo \<le> r" and "r \<le> hi"
proof -
  have "(0::rat) < 2 ^ 1024" by (rule zero_less_power) simp
  then have "- (2 ^ 1024) < (0::rat)" by (simp only: neg_less_0_iff_less)
  then have "- (2 ^ 1024) < lo" using assms(3) by (rule less_le_trans)
  with round_f64_between [OF assms(1,2,5,6)] small_lt_max [OF assms(4)] that show thesis by blast
qed

lemma round_f64_exact_small:
  assumes "round_rat q = q" and "0 \<le> q" and "q \<le> 2 ^ 53"
  shows "round_f64 q = Finite q"
proof (rule round_f64_exact)
  show "round_rat q = q" by fact
  have "\<bar>q\<bar> = q" using assms(2) by (rule abs_of_nonneg)
  then show "\<bar>q\<bar> < 2 ^ 1024" by (metis small_lt_max assms(3))
qed

end
