(* ===== verification/RpcTypes.thy ===== *)
theory RpcTypes
  imports RustText Float64 "HOL-Library.Word"
begin

text \<open>
  The data of \<open>src/requests/types.rs\<close>: the JSON-RPC envelope and its two hand-written
  deserialisers, the error classification, and the decoded transaction with its nested records.
  Unsigned fields are words of the source's width; signed ones are integers. The derived
  deserialisers are generated code and enter as arguments where they are called.
\<close>

section \<open>JSON values\<close>

datatype json =
    JNull
  | JBool bool
  | JNumber string
  | JString string
  | JArray "json list"
  | JObject "(string \<times> json) list"

section \<open>Signatures and the RPC envelope\<close>

record signature_info =
  sig_block_time :: "i64 option"
  sig_signature :: string

record rpc_response =
  resp_result :: "signature_info list"

datatype 'a response_field = Missing | Null | Value 'a

record rpc_error =
  err_code :: i64
  err_message :: string

record 'a rpc_envelope =
  env_result :: "'a response_field"
  env_error :: "rpc_error option"

text \<open>
  The hand-written deserialiser of the result field. \<open>opt\<close> is the library's deserialiser of
  \<open>Option<T>\<close>; the field attribute \<open>default\<close> gives \<open>Missing\<close> when the field is absent.
\<close>

definition deserialize_response_field ::
    "(json \<Rightarrow> 'a option result) \<Rightarrow> json \<Rightarrow> 'a response_field result" where
  "deserialize_response_field opt v =
     (case opt v of
        Err e \<Rightarrow> Err e
      | Ok None \<Rightarrow> Ok Null
      | Ok (Some x) \<Rightarrow> Ok (Value x))"

definition response_field_default :: "'a response_field" where
  "response_field_default = Missing"

section \<open>Rate-limit classification\<close>

definition is_rate_limited :: "nat option \<Rightarrow> i64 option \<Rightarrow> string \<Rightarrow> bool" where
  "is_rate_limited status_code rpc_code message =
     (if status_code = Some 429 then True
      else if rpc_code = Some (- 32429) then True
      else let normalized = to_ascii_lowercase message
           in contains normalized ''rate limit'' \<or> contains normalized ''rate-limited''
              \<or> contains normalized ''too many requests'')"

definition rpc_error_is_rate_limited :: "rpc_error \<Rightarrow> bool" where
  "rpc_error_is_rate_limited e = is_rate_limited None (Some (err_code e)) (err_message e)"

record fetch_error =
  fe_signature :: string
  fe_status_code :: "nat option"
  fe_rpc_code :: "i64 option"
  fe_message :: string

definition fetch_error_is_rate_limited :: "fetch_error \<Rightarrow> bool" where
  "fetch_error_is_rate_limited e =
     is_rate_limited (fe_status_code e) (fe_rpc_code e) (fe_message e)"

section \<open>Transactions\<close>

record ui_token_amount =
  uta_amount :: string
  uta_decimals :: "8 word"
  uta_ui_amount :: "f64 option"

record token_balance =
  tb_account_index :: "8 word"
  tb_mint :: string
  tb_owner :: string
  tb_ui_token_amount :: ui_token_amount

record parsed_info =
  pi_token_amount :: "ui_token_amount option"
  pi_amount :: "string option"
  pi_decimals :: "8 word option"
  pi_ui_amount :: "f64 option"
  pi_mint :: "string option"
  pi_authority :: "string option"
  pi_lamports :: "64 word option"
  pi_source :: "string option"
  pi_destination :: "string option"
  pi_account :: "string option"

record parsed_instruction =
  parsed_info_of :: parsed_info
  instruction_type :: string

record instruction =
  ins_parsed :: "parsed_instruction option"
  ins_program :: "string option"
  ins_program_id :: "string option"

text \<open>
  The hand-written deserialiser of the \<open>parsed\<close> field: \<open>opt_value\<close> is the library's deserialiser of
  \<open>Option<Value>\<close> and \<open>from_value\<close> the generated one of \<open>ParsedInstruction\<close>. An object that does not
  decode is dropped instead of failing the transaction.
\<close>

definition deserialize_parsed_instruction_opt ::
    "(json \<Rightarrow> json option result) \<Rightarrow> (json \<Rightarrow> parsed_instruction result) \<Rightarrow>
     json \<Rightarrow> parsed_instruction option result" where
  "deserialize_parsed_instruction_opt opt_value from_value v =
     (case opt_value v of
        Err e \<Rightarrow> Err e
      | Ok value \<Rightarrow>
          Ok (case value of
                Some (JObject kvs) \<Rightarrow>
                  (case from_value (JObject kvs) of Ok p \<Rightarrow> Some p | Err _ \<Rightarrow> None)
              | _ \<Rightarrow> None))"

record inner_instructions =
  inner_index :: "16 word"
  inner_instrs :: "instruction list"

record account_key_info =
  aki_pubkey :: string
  aki_signer :: "bool option"

datatype account_key = Pubkey string | Info account_key_info

record message_header =
  required_signatures :: "8 word"

record account_keys =
  ak_keys :: "account_key list"
  ak_instructions :: "instruction list"
  ak_header :: "message_header option"

record transaction =
  tx_signatures :: "string list"
  tx_message :: account_keys

record loaded_addresses =
  la_writable :: "string list"
  la_readonly :: "string list"

record meta =
  meta_compute_units :: i32
  meta_fee :: i32
  meta_err :: json
  meta_loaded_addresses :: "loaded_addresses option"
  meta_inner_instructions :: "inner_instructions list"
  meta_pre_token_balances :: "token_balance list"
  meta_post_token_balances :: "token_balance list"

record transaction_info =
  ti_block_time :: i32
  ti_meta :: meta
  ti_transaction :: transaction
  ti_slot :: i32

record token_transfer_change =
  tt_token_mint :: "string option"
  tt_token_program :: "string option"
  tt_source_owner :: "string option"
  tt_destination_owner :: "string option"
  tt_source_token_account :: "string option"
  tt_destination_token_account :: "string option"
  tt_amount_raw :: i128
  tt_amount_ui :: "f64 option"
  tt_decimals :: "8 word option"
  tt_transfer_type :: string
  tt_asset_type :: string
  tt_direction :: string
  tt_authority :: "string option"
  tt_instruction_idx :: "i32 option"
  tt_inner_idx :: "i32 option"

record transaction_result =
  tr_result :: transaction_info
  tr_token_transfer_changes :: "token_transfer_change list"

record transaction_batch =
  tb_transactions :: "transaction_result list"
  tb_processed_signatures :: "string list"
  tb_failed_signatures :: "string list"
  tb_errors :: "fetch_error list"

record token_account_meta =
  tam_owner :: string
  tam_mint :: string
  tam_decimals :: "8 word"

section \<open>Counting keys, signers and instructions\<close>

fun account_key_pubkey :: "account_key \<Rightarrow> string" where
  "account_key_pubkey (Pubkey s) = s"
| "account_key_pubkey (Info info) = aki_pubkey info"

definition pubkeys :: "account_keys \<Rightarrow> string list" where
  "pubkeys m = map account_key_pubkey (ak_keys m)"

fun account_key_signs :: "account_key \<Rightarrow> bool" where
  "account_key_signs (Info info) = unwrap_or False (aki_signer info)"
| "account_key_signs (Pubkey s) = False"

definition count_signers :: "account_keys \<Rightarrow> usize" where
  "count_signers m = length (filter account_key_signs (ak_keys m))"

definition num_signers :: "transaction_result \<Rightarrow> i32" where
  "num_signers tr =
     (let tx = ti_transaction (tr_result tr)
      in case ak_header (tx_message tx) of
           Some header \<Rightarrow> uint (required_signatures header)
         | None \<Rightarrow>
             (let signatures_len = length (tx_signatures tx)
              in if signatures_len > 0 then unwrap_or 0 (i32_try_from signatures_len)
                 else unwrap_or 0 (i32_try_from (count_signers (tx_message tx)))))"

definition num_instructions :: "transaction_result \<Rightarrow> i32" where
  "num_instructions tr =
     unwrap_or 0 (i32_try_from (length (ak_instructions (tx_message (ti_transaction (tr_result tr))))))"

definition all_account_keys :: "transaction_result \<Rightarrow> string list" where
  "all_account_keys tr =
     (let keys = pubkeys (tx_message (ti_transaction (tr_result tr)))
      in case meta_loaded_addresses (ti_meta (tr_result tr)) of
           Some loaded \<Rightarrow> keys @ la_writable loaded @ la_readonly loaded
         | None \<Rightarrow> keys)"

section \<open>Facts\<close>

lemma is_rate_limited_status [simp]: "is_rate_limited (Some 429) code msg"
  by (simp add: is_rate_limited_def)

lemma is_rate_limited_code [simp]: "is_rate_limited status (Some (- 32429)) msg"
  by (simp add: is_rate_limited_def)

lemma is_rate_limited_iff:
  "is_rate_limited status code msg \<longleftrightarrow>
     status = Some 429 \<or> code = Some (- 32429)
     \<or> sublist ''rate limit'' (to_ascii_lowercase msg)
     \<or> sublist ''rate-limited'' (to_ascii_lowercase msg)
     \<or> sublist ''too many requests'' (to_ascii_lowercase msg)"
  by (simp add: is_rate_limited_def contains_sublist Let_def)

text \<open>The verdict depends on the message up to case, and text around it cannot turn it off.\<close>

lemma is_rate_limited_context:
  assumes "is_rate_limited status code msg"
  shows "is_rate_limited status code (a @ msg @ b)"
  using assms
  by (auto simp: is_rate_limited_def Let_def to_ascii_lowercase_append intro: contains_append)

lemma is_rate_limited_case:
  "to_ascii_lowercase m = to_ascii_lowercase m' \<Longrightarrow>
   is_rate_limited status code m = is_rate_limited status code m'"
  by (simp add: is_rate_limited_def)

lemma uint_u8_range: "0 \<le> uint (w :: 8 word) \<and> uint w < 256"
  using uint_lt2p [of w] by simp

lemma uint_u8_i32: "uint (w :: 8 word) < 2147483648"
  using uint_u8_range [of w] by simp

lemma num_signers_range: "0 \<le> num_signers tr \<and> num_signers tr < 2 ^ 31"
  by (auto simp: num_signers_def Let_def i32_try_from_def uint_u8_i32 split: option.split)

lemma count_signers_le: "count_signers m \<le> length (pubkeys m)"
  by (simp add: count_signers_def pubkeys_def)

end
