(* ===== verification/Store.thy ===== *)
theory Store
  imports RpcTypes
begin

text \<open>
  The four tables of \<open>migrations/\<close> and what the statements of \<open>src/db/\<close> share: the rows, the view a
  session has of the tables while one statement runs, faults of the connection, and
  \<open>INSERT ... ON CONFLICT DO NOTHING\<close>. A table is the list of its rows; the order is the storage
  order, which no statement may rely on: a statement without \<open>ORDER BY\<close> visits the rows in the order
  the session's scan gives. A nullable column is an option, so a comparison with NULL is not true.
\<close>

section \<open>Rows\<close>

record job_row =
  jr_id :: i64
  jr_address :: string
  jr_status :: string
  jr_created_at :: micros
  jr_updated_at :: micros
  jr_worker_id :: "i16 option"
  jr_tx_limit :: i16
  jr_requested_hours :: i16

record sig_row =
  sr_owner :: string
  sr_signature :: string
  sr_block_time :: "i64 option"
  sr_is_processed :: "bool option"
  sr_is_processing :: "bool option"
  sr_started_at :: "micros option"

record tx_row =
  xr_owner :: string
  xr_signature :: string
  xr_slot :: i64
  xr_block_time :: i64
  xr_err :: json
  xr_fee :: i64
  xr_compute_units :: i32
  xr_num_signers :: i32
  xr_num_instructions :: i32

text \<open>The columns of the natural unique index; the generated \<open>id\<close> and \<open>created_at\<close> are left out, and a
  \<open>numeric\<close> is the rational number it denotes.\<close>

record transfer_row =
  fr_tracked_owner :: string
  fr_signature :: string
  fr_source_owner :: "string option"
  fr_destination_owner :: "string option"
  fr_source_token_account :: "string option"
  fr_destination_token_account :: "string option"
  fr_token_mint :: "string option"
  fr_token_program :: "string option"
  fr_amount_raw :: int
  fr_amount_ui :: "rat option"
  fr_decimals :: "i32 option"
  fr_asset_type :: string
  fr_transfer_type :: string
  fr_direction :: string
  fr_instruction_idx :: "i32 option"
  fr_inner_idx :: "i32 option"
  fr_authority :: "string option"
  fr_slot :: i64
  fr_block_time :: i64

record db =
  processing_data :: "job_row list"
  next_job_id :: i64
  signatures :: "sig_row list"
  transactions :: "tx_row list"
  token_transfers :: "transfer_row list"

section \<open>One statement\<close>

text \<open>A fault before the statement took effect, or after it was committed and before the client
  heard of it.\<close>

datatype fault = Refused string | Lost string

record turn =
  t_now :: micros
  t_fault :: "fault option"
  t_locked_job :: "i64 \<Rightarrow> bool"
  t_locked_sig :: "string \<Rightarrow> string \<Rightarrow> bool"
  t_scan_jobs :: "job_row list \<Rightarrow> job_row list"
  t_scan_sigs :: "sig_row list \<Rightarrow> sig_row list"

definition run_stmt :: "turn \<Rightarrow> (turn \<Rightarrow> db \<Rightarrow> 'a result \<times> db) \<Rightarrow> db \<Rightarrow> 'a result \<times> db" where
  "run_stmt t stmt d =
     (case t_fault t of
        None \<Rightarrow> stmt t d
      | Some (Refused e) \<Rightarrow> (Err e, d)
      | Some (Lost e) \<Rightarrow> (Err e, snd (stmt t d)))"

text \<open>A turn whose scans return each row once, in some order.\<close>

definition fair_turn :: "turn \<Rightarrow> bool" where
  "fair_turn t \<longleftrightarrow>
     (\<forall>rows. set (t_scan_jobs t rows) = set rows \<and> length (t_scan_jobs t rows) = length rows)
     \<and> (\<forall>rows. set (t_scan_sigs t rows) = set rows \<and> length (t_scan_sigs t rows) = length rows)"

definition quiet_turn :: "turn \<Rightarrow> bool" where
  "quiet_turn t \<longleftrightarrow> fair_turn t \<and> t_fault t = None"

lemma fair_scan:
  "fair_turn t \<Longrightarrow> set (t_scan_jobs t jrows) = set jrows"
  "fair_turn t \<Longrightarrow> set (t_scan_sigs t srows) = set srows"
  "fair_turn t \<Longrightarrow> length (t_scan_jobs t jrows) = length jrows"
  "fair_turn t \<Longrightarrow> length (t_scan_sigs t srows) = length srows"
  by (simp_all add: fair_turn_def)

lemma run_stmt_state: "snd (run_stmt t stmt d) \<in> {d, snd (stmt t d)}"
  by (simp add: run_stmt_def split: option.split fault.split)

lemma run_stmt_Ok: "run_stmt t stmt d = (Ok x, d') \<Longrightarrow> t_fault t = None \<and> stmt t d = (Ok x, d')"
  by (simp add: run_stmt_def split: option.splits fault.splits)

lemma run_stmt_quiet [simp]: "t_fault t = None \<Longrightarrow> run_stmt t stmt d = stmt t d"
  by (simp add: run_stmt_def)

section \<open>Insert on conflict do nothing\<close>

fun insert_on_conflict :: "('r \<Rightarrow> 'k) \<Rightarrow> 'r list \<Rightarrow> 'r list \<Rightarrow> 'r list \<times> nat" where
  "insert_on_conflict key table [] = (table, 0)"
| "insert_on_conflict key table (r # rs) =
     (if key r \<in> set (map key table) then insert_on_conflict key table rs
      else let (t, n) = insert_on_conflict key (table @ [r]) rs in (t, Suc n))"

text \<open>What every such insert promises, and what follows from it.\<close>

locale upsert =
  fixes key :: "'r \<Rightarrow> 'k"
    and ins :: "'r list \<Rightarrow> 'r list \<Rightarrow> 'r list \<times> nat"
  assumes ins_extends:
      "\<exists>added. fst (ins t rs) = t @ added \<and> set added \<subseteq> set rs \<and> length added = snd (ins t rs)
         \<and> distinct (map key added) \<and> key ` set added \<inter> key ` set t = {}"
    and ins_present: "r \<in> set rs \<Longrightarrow> key r \<in> key ` set (fst (ins t rs))"
    and ins_noop: "key ` set rs \<subseteq> key ` set t \<Longrightarrow> ins t rs = (t, 0)"
begin

lemma ins_keeps: "r \<in> set t \<Longrightarrow> r \<in> set (fst (ins t rs))"
  using ins_extends [of t rs] by auto

lemma ins_only: "r \<in> set (fst (ins t rs)) \<Longrightarrow> r \<in> set t \<or> r \<in> set rs"
  using ins_extends [of t rs] by auto

lemma ins_keys: "key ` set (fst (ins t rs)) = key ` set t \<union> key ` set rs"
  using ins_keeps ins_only ins_present by blast

text \<open>One row is added for each key that was not there.\<close>

lemma ins_added:
  obtains added where "fst (ins t rs) = t @ added" and "distinct (map key added)" and "set added \<subseteq> set rs"
    and "key ` set added = key ` set rs - key ` set t"
proof -
  obtain added where a: "fst (ins t rs) = t @ added" "set added \<subseteq> set rs" "distinct (map key added)"
    "key ` set added \<inter> key ` set t = {}" using ins_extends [of t rs] by blast
  have "key ` set added \<union> key ` set t = key ` set t \<union> key ` set rs" using ins_keys [of t rs] a(1) by auto
  with a(4) have "key ` set added = key ` set rs - key ` set t" by blast
  with a(1-3) that show thesis by blast
qed

lemma ins_unique: "distinct (map key t) \<Longrightarrow> distinct (map key (fst (ins t rs)))"
  by (rule ins_added [of t rs]) auto

lemma ins_count: "length (fst (ins t rs)) = length t + snd (ins t rs)"
  using ins_extends [of t rs] by auto

lemma ins_twice: "ins (fst (ins t rs)) rs = (fst (ins t rs), 0)"
  by (rule ins_noop) (auto simp: ins_keys)

lemma ins_mono: "set rs' \<subseteq> set rs \<Longrightarrow> ins (fst (ins t rs)) rs' = (fst (ins t rs), 0)"
  by (rule ins_noop) (auto simp: ins_keys)

lemma ins_count_card:
  assumes "distinct (map key t)"
  shows "snd (ins t rs) = card (key ` set rs - key ` set t)"
proof -
  have "card (key ` set (fst (ins t rs))) = length t + snd (ins t rs)"
    using ins_unique [OF assms] by (metis distinct_card ins_count length_map set_map)
  moreover have "card (key ` set t) = length t"
    using assms by (metis distinct_card length_map set_map)
  moreover have "card (key ` set t \<union> (key ` set rs - key ` set t))
      = card (key ` set t) + card (key ` set rs - key ` set t)"
    by (intro card_Un_disjoint) auto
  ultimately show ?thesis by (simp add: ins_keys)
qed

end

lemma insert_on_conflict_extends:
  "\<exists>added. fst (insert_on_conflict key t rs) = t @ added \<and> set added \<subseteq> set rs
     \<and> length added = snd (insert_on_conflict key t rs)
     \<and> distinct (map key added) \<and> key ` set added \<inter> key ` set t = {}"
proof (induction rs arbitrary: t)
  case (Cons r rs)
  show ?case
  proof (cases "key r \<in> set (map key t)")
    case True
    with Cons [of t] show ?thesis by auto
  next
    case False
    from Cons [of "t @ [r]"] obtain added where
      "fst (insert_on_conflict key (t @ [r]) rs) = (t @ [r]) @ added" "set added \<subseteq> set rs"
      "length added = snd (insert_on_conflict key (t @ [r]) rs)" "distinct (map key added)"
      "key ` set added \<inter> key ` set (t @ [r]) = {}" by blast
    with False show ?thesis
      by (intro exI [of _ "r # added"]) (auto simp: case_prod_beta Let_def)
  qed
qed simp

lemma insert_on_conflict_keeps: "r \<in> set t \<Longrightarrow> r \<in> set (fst (insert_on_conflict key t rs))"
  using insert_on_conflict_extends [of key t rs] by auto

lemma insert_on_conflict_present:
  "r \<in> set rs \<Longrightarrow> key r \<in> key ` set (fst (insert_on_conflict key t rs))"
proof (induction rs arbitrary: t)
  case (Cons x rs)
  have "key x \<in> key ` set (fst (insert_on_conflict key t (x # rs)))"
  proof (cases "key x \<in> set (map key t)")
    case True
    then obtain y where "y \<in> set t" "key y = key x" by auto
    then show ?thesis using insert_on_conflict_keeps [of y t key "x # rs"] by (metis imageI)
  next
    case False
    then show ?thesis
      using insert_on_conflict_keeps [of x "t @ [x]" key rs] by (simp add: case_prod_beta Let_def)
  qed
  moreover have "r \<in> set rs \<Longrightarrow> ?case"
    using Cons.IH by (simp add: case_prod_beta Let_def)
  ultimately show ?case using Cons.prems by (metis set_ConsD)
qed simp

lemma insert_on_conflict_noop:
  "key ` set rs \<subseteq> key ` set t \<Longrightarrow> insert_on_conflict key t rs = (t, 0)"
  by (induction rs) auto

lemma insert_on_conflict_upsert: "upsert key (insert_on_conflict key)"
  by unfold_locales
     (auto intro: insert_on_conflict_extends insert_on_conflict_present insert_on_conflict_noop)

section \<open>Well-formed tables\<close>

definition sig_key :: "sig_row \<Rightarrow> string \<times> string" where
  "sig_key r = (sr_owner r, sr_signature r)"

definition tx_key :: "tx_row \<Rightarrow> string \<times> string" where
  "tx_key r = (xr_owner r, xr_signature r)"

text \<open>The primary keys and the natural unique index.\<close>

definition db_inv :: "db \<Rightarrow> bool" where
  "db_inv d \<longleftrightarrow>
     distinct (map jr_id (processing_data d))
     \<and> list_all (\<lambda>j. jr_id j < next_job_id d) (processing_data d)
     \<and> distinct (map sig_key (signatures d))
     \<and> distinct (map tx_key (transactions d))
     \<and> distinct (token_transfers d)"

text \<open>The interpretations for the three tables that are written this way.\<close>

interpretation sigtab: upsert sig_key "insert_on_conflict sig_key"
  by (rule insert_on_conflict_upsert)

interpretation txtab: upsert tx_key "insert_on_conflict tx_key"
  by (rule insert_on_conflict_upsert)

interpretation trtab: upsert "\<lambda>r :: transfer_row. r" "insert_on_conflict (\<lambda>r. r)"
  by (rule insert_on_conflict_upsert)

end
