(* ===== verification/JobsDb.thy ===== *)
theory JobsDb
  imports Store
begin

text \<open>
  The statements of \<open>src/db/jobs.rs\<close> on the job table: claiming, status updates, the progress query
  and job creation.
\<close>

record claimed_job =
  cj_job_id :: i64
  cj_address :: string
  cj_requested_hours :: i16
  cj_tx_limit :: i16

record job_info =
  ji_status :: string
  ji_updated_at :: micros
  ji_total_transactions :: i64
  ji_processed_transactions :: i64
  ji_remaining_transactions :: i64

section \<open>Claiming\<close>

definition job_active :: "db \<Rightarrow> string \<Rightarrow> bool" where
  "job_active d address =
     list_ex (\<lambda>a. jr_address a = address \<and> jr_status a = ''indexing'') (processing_data d)"

definition claimable_job :: "db \<Rightarrow> job_row \<Rightarrow> bool" where
  "claimable_job d j = (jr_status j = ''pending'' \<and> \<not> job_active d (jr_address j))"

definition next_job :: "turn \<Rightarrow> db \<Rightarrow> job_row option" where
  "next_job t d =
     (case filter (\<lambda>j. claimable_job d j \<and> \<not> t_locked_job t (jr_id j))
                  (sort_key jr_created_at (t_scan_jobs t (processing_data d))) of
        [] \<Rightarrow> None
      | j # _ \<Rightarrow> Some j)"

definition set_indexing :: "turn \<Rightarrow> i64 \<Rightarrow> i32 \<Rightarrow> db \<Rightarrow> db" where
  "set_indexing t job_id worker d =
     d\<lparr>processing_data :=
         map (\<lambda>r. if jr_id r = job_id
                  then r\<lparr>jr_status := ''indexing'', jr_worker_id := Some worker, jr_updated_at := t_now t\<rparr>
                  else r) (processing_data d)\<rparr>"

text \<open>\<open>worker_id\<close> is a \<open>u32\<close>, bound as an \<open>int4\<close> and stored in a \<open>smallint\<close> column.\<close>

definition bound_worker_id :: "nat \<Rightarrow> i32" where
  "bound_worker_id worker_id = unwrap_or (2 ^ 31 - 1) (i32_try_from worker_id)"

definition claim_pending_job_stmt :: "nat \<Rightarrow> turn \<Rightarrow> db \<Rightarrow> claimed_job option result \<times> db" where
  "claim_pending_job_stmt worker_id t d =
     (case next_job t d of
        None \<Rightarrow> (Ok None, d)
      | Some j \<Rightarrow>
          if \<not> in_signed 16 (bound_worker_id worker_id) then (Err ''smallint out of range'', d)
          else (Ok (Some \<lparr>cj_job_id = jr_id j, cj_address = jr_address j,
                          cj_requested_hours = jr_requested_hours j, cj_tx_limit = jr_tx_limit j\<rparr>),
                set_indexing t (jr_id j) (bound_worker_id worker_id) d))"

section \<open>The window of a job\<close>

text \<open>\<open>EXTRACT(EPOCH FROM ...)::bigint\<close> of a timestamp in microseconds: a numeric of seconds, rounded
  half away from zero.\<close>

definition epoch_bigint :: "micros \<Rightarrow> i64" where
  "epoch_bigint us =
     (if 0 \<le> us then (us + 500000) div 1000000 else - ((- us + 500000) div 1000000))"

definition in_job_window :: "job_row \<Rightarrow> sig_row \<Rightarrow> bool" where
  "in_job_window j s =
     (sr_owner s = jr_address j \<and>
      (case sr_block_time s of
         None \<Rightarrow> False
       | Some bt \<Rightarrow>
           epoch_bigint (jr_created_at j - jr_requested_hours j * 3600000000) \<le> bt
           \<and> bt \<le> epoch_bigint (jr_created_at j)))"

section \<open>Status updates\<close>

definition window_unprocessed :: "db \<Rightarrow> job_row \<Rightarrow> bool" where
  "window_unprocessed d j =
     list_ex (\<lambda>s. in_job_window j s \<and> sr_is_processed s = Some False) (signatures d)"

definition status_update_applies :: "db \<Rightarrow> i64 \<Rightarrow> string \<Rightarrow> job_row \<Rightarrow> bool" where
  "status_update_applies d job_id status j =
     (jr_id j = job_id \<and> jr_status j = ''indexing''
      \<and> (status \<noteq> ''ready'' \<or> \<not> window_unprocessed d j))"

definition update_processing_status_stmt ::
    "i64 \<Rightarrow> string \<Rightarrow> turn \<Rightarrow> db \<Rightarrow> nat result \<times> db" where
  "update_processing_status_stmt job_id status t d =
     (Ok (length (filter (status_update_applies d job_id status) (processing_data d))),
      d\<lparr>processing_data :=
          map (\<lambda>j. if status_update_applies d job_id status j
                   then j\<lparr>jr_status := status, jr_updated_at := t_now t\<rparr> else j)
              (processing_data d)\<rparr>)"

section \<open>Progress and creation\<close>

definition job_info_of :: "db \<Rightarrow> job_row \<Rightarrow> job_info" where
  "job_info_of d j =
     (let rows = filter (in_job_window j) (signatures d);
          total = length rows;
          processed = length (filter (\<lambda>s. sr_is_processed s = Some True) rows)
      in \<lparr>ji_status = jr_status j, ji_updated_at = jr_updated_at j,
          ji_total_transactions = int total, ji_processed_transactions = int processed,
          ji_remaining_transactions = int total - int processed\<rparr>)"

definition get_job_info_stmt :: "i64 \<Rightarrow> turn \<Rightarrow> db \<Rightarrow> job_info option result \<times> db" where
  "get_job_info_stmt job_id t d =
     (Ok (case filter (\<lambda>j. jr_id j = job_id) (processing_data d) of
            [] \<Rightarrow> None
          | j # _ \<Rightarrow> Some (job_info_of d j)), d)"

definition create_processing_job_stmt ::
    "string \<Rightarrow> i16 \<Rightarrow> i16 \<Rightarrow> turn \<Rightarrow> db \<Rightarrow> i64 option result \<times> db" where
  "create_processing_job_stmt address tx_limit requested_hours t d =
     (Ok (Some (next_job_id d)),
      d\<lparr>processing_data := processing_data d @
          [\<lparr>jr_id = next_job_id d, jr_address = address, jr_status = ''pending'',
            jr_created_at = t_now t, jr_updated_at = t_now t, jr_worker_id = None,
            jr_tx_limit = tx_limit, jr_requested_hours = requested_hours\<rparr>],
        next_job_id := next_job_id d + 1\<rparr>)"

section \<open>Claiming: facts\<close>

lemma next_job_Some:
  assumes "next_job t d = Some j" and "fair_turn t"
  shows "j \<in> set (processing_data d)" and "claimable_job d j" and "\<not> t_locked_job t (jr_id j)"
    and "\<And>k. k \<in> set (processing_data d) \<Longrightarrow> claimable_job d k \<Longrightarrow> \<not> t_locked_job t (jr_id k) \<Longrightarrow>
           jr_created_at j \<le> jr_created_at k"
proof -
  let ?xs = "filter (\<lambda>j. claimable_job d j \<and> \<not> t_locked_job t (jr_id j))
               (sort_key jr_created_at (t_scan_jobs t (processing_data d)))"
  from assms(1) obtain rest where xs: "?xs = j # rest"
    by (auto simp: next_job_def split: list.splits)
  have mem: "set ?xs = {k \<in> set (processing_data d). claimable_job d k \<and> \<not> t_locked_job t (jr_id k)}"
    using fair_scan(1) [OF assms(2)] by auto
  from xs have "j \<in> set ?xs" by simp
  with mem show "j \<in> set (processing_data d)" "claimable_job d j" "\<not> t_locked_job t (jr_id j)"
    by auto
  fix k
  assume "k \<in> set (processing_data d)" "claimable_job d k" "\<not> t_locked_job t (jr_id k)"
  with mem have "k \<in> set ?xs" by blast
  moreover have "sorted (map jr_created_at ?xs)" by (rule sorted_filter) (rule sorted_sort_key)
  ultimately show "jr_created_at j \<le> jr_created_at k" by (auto simp: xs)
qed

lemma next_job_None:
  assumes "next_job t d = None" and "fair_turn t"
  shows "k \<in> set (processing_data d) \<Longrightarrow> claimable_job d k \<Longrightarrow> t_locked_job t (jr_id k)"
proof -
  have "filter (\<lambda>j. claimable_job d j \<and> \<not> t_locked_job t (jr_id j))
          (sort_key jr_created_at (t_scan_jobs t (processing_data d))) = []"
    using assms(1) by (auto simp: next_job_def split: list.splits)
  then show "k \<in> set (processing_data d) \<Longrightarrow> claimable_job d k \<Longrightarrow> t_locked_job t (jr_id k)"
    using fair_scan(1) [OF assms(2)] by (auto simp: filter_empty_conv)
qed

lemma claim_Some:
  assumes "claim_pending_job_stmt w t d = (Ok (Some c), d')"
  obtains j where "next_job t d = Some j" and "cj_job_id c = jr_id j" and "cj_address c = jr_address j"
    and "cj_requested_hours c = jr_requested_hours j" and "cj_tx_limit c = jr_tx_limit j"
    and "in_signed 16 (bound_worker_id w)" and "d' = set_indexing t (jr_id j) (bound_worker_id w) d"
  using assms by (auto simp: claim_pending_job_stmt_def split: option.splits if_splits)

lemma claim_state:
  "snd (claim_pending_job_stmt w t d) = d \<or>
   (\<exists>j. next_job t d = Some j
      \<and> snd (claim_pending_job_stmt w t d) = set_indexing t (jr_id j) (bound_worker_id w) d)"
  by (auto simp: claim_pending_job_stmt_def split: option.split)

section \<open>What the statements leave alone\<close>

lemma set_indexing_frame [frame_simps]:
  "signatures (set_indexing t i w d) = signatures d"
  "transactions (set_indexing t i w d) = transactions d"
  "token_transfers (set_indexing t i w d) = token_transfers d"
  "next_job_id (set_indexing t i w d) = next_job_id d"
  by (simp_all add: set_indexing_def)

lemma claim_frame [frame_simps]:
  "signatures (snd (claim_pending_job_stmt w t d)) = signatures d"
  "transactions (snd (claim_pending_job_stmt w t d)) = transactions d"
  "token_transfers (snd (claim_pending_job_stmt w t d)) = token_transfers d"
  "next_job_id (snd (claim_pending_job_stmt w t d)) = next_job_id d"
  using claim_state [of w t d] by (auto simp: frame_simps)

lemma status_frame [frame_simps]:
  "signatures (snd (update_processing_status_stmt i st t d)) = signatures d"
  "transactions (snd (update_processing_status_stmt i st t d)) = transactions d"
  "token_transfers (snd (update_processing_status_stmt i st t d)) = token_transfers d"
  "next_job_id (snd (update_processing_status_stmt i st t d)) = next_job_id d"
  by (simp_all add: update_processing_status_stmt_def)

lemma create_frame [frame_simps]:
  "signatures (snd (create_processing_job_stmt a l h t d)) = signatures d"
  "transactions (snd (create_processing_job_stmt a l h t d)) = transactions d"
  "token_transfers (snd (create_processing_job_stmt a l h t d)) = token_transfers d"
  by (simp_all add: create_processing_job_stmt_def)

lemma job_info_frame [frame_simps]: "snd (get_job_info_stmt i t d) = d"
  by (simp add: get_job_info_stmt_def)

text \<open>The identity, address, window and limit of a job never change.\<close>

definition job_const :: "job_row \<Rightarrow> i64 \<times> string \<times> micros \<times> i16 \<times> i16" where
  "job_const j = (jr_id j, jr_address j, jr_created_at j, jr_tx_limit j, jr_requested_hours j)"

lemma claim_const:
  "map job_const (processing_data (snd (claim_pending_job_stmt w t d))) =
     map job_const (processing_data d)"
  using claim_state [of w t d] by (auto simp: set_indexing_def job_const_def)

lemma status_const:
  "map job_const (processing_data (snd (update_processing_status_stmt i st t d))) =
     map job_const (processing_data d)"
  by (simp add: update_processing_status_stmt_def job_const_def)

lemma ids_from_const:
  "map job_const js = map job_const js' \<Longrightarrow> map jr_id js = map jr_id js'"
  by (drule arg_cong [where f = "map fst"]) (simp add: job_const_def comp_def)

lemma db_inv_jobs:
  assumes "db_inv d" and "map job_const (processing_data d') = map job_const (processing_data d)"
    and "signatures d' = signatures d" and "transactions d' = transactions d"
    and "token_transfers d' = token_transfers d" and "next_job_id d' = next_job_id d"
  shows "db_inv d'"
proof -
  from ids_from_const [OF assms(2)] have ids: "map jr_id (processing_data d') = map jr_id (processing_data d)" .
  have "list_all (\<lambda>j. jr_id j < n) js = list_all (\<lambda>i. i < n) (map jr_id js)" for n js
    by (simp add: list_all_iff)
  then have "list_all (\<lambda>j. jr_id j < next_job_id d') (processing_data d')"
    using assms(1,6) ids by (metis db_inv_def)
  with ids assms show ?thesis by (simp add: db_inv_def)
qed

lemma claim_inv: "db_inv d \<Longrightarrow> db_inv (snd (claim_pending_job_stmt w t d))"
  by (rule db_inv_jobs) (simp_all add: claim_const frame_simps)

lemma status_inv: "db_inv d \<Longrightarrow> db_inv (snd (update_processing_status_stmt i st t d))"
  by (rule db_inv_jobs) (simp_all add: status_const frame_simps)

lemma create_inv: "db_inv d \<Longrightarrow> db_inv (snd (create_processing_job_stmt a l h t d))"
  by (force simp: db_inv_def create_processing_job_stmt_def list_all_iff)

section \<open>Status transitions\<close>

text \<open>The moves a statement of this module can make on one job.\<close>

inductive status_move :: "string \<Rightarrow> string \<Rightarrow> bool" where
  stay: "status_move s s"
| claimed: "status_move ''pending'' ''indexing''"
| finished: "status_move ''indexing'' s"

inductive_cases from_pending: "status_move ''pending'' s"
inductive_simps status_move_from: "status_move s s'"

lemma claim_moves:
  assumes "fair_turn t"
  shows "list_all2 (\<lambda>j j'. jr_id j = jr_id j' \<and> status_move (jr_status j) (jr_status j'))
           (processing_data d) (processing_data (snd (claim_pending_job_stmt w t d)))
         \<or> \<not> distinct (map jr_id (processing_data d))"
proof (cases "distinct (map jr_id (processing_data d))")
  case True
  consider "snd (claim_pending_job_stmt w t d) = d"
    | j where "next_job t d = Some j"
        "snd (claim_pending_job_stmt w t d) = set_indexing t (jr_id j) (bound_worker_id w) d"
    using claim_state [of w t d] by blast
  then show ?thesis
  proof cases
    case 1
    then show ?thesis by (simp add: list_all2_same stay)
  next
    case (2 j)
    note j = next_job_Some [OF 2(1) assms]
    have "jr_status k = ''pending''" if "k \<in> set (processing_data d)" "jr_id k = jr_id j" for k
      using that j(1,2) True by (auto simp: claimable_job_def distinct_map dest: inj_onD)
    then show ?thesis
      using 2(2) by (auto simp: set_indexing_def list_all2_map2 list_all2_same status_move.intros)
  qed
qed simp

lemma status_moves:
  "list_all2 (\<lambda>j j'. jr_id j = jr_id j' \<and> status_move (jr_status j) (jr_status j'))
     (processing_data d) (processing_data (snd (update_processing_status_stmt i st t d)))"
  by (auto simp: update_processing_status_stmt_def list_all2_map2 list_all2_same
        status_update_applies_def status_move.intros)

section \<open>One active job per address\<close>

definition one_active :: "db \<Rightarrow> bool" where
  "one_active d = distinct (map jr_address (filter (\<lambda>j. jr_status j = ''indexing'') (processing_data d)))"

lemma filter_map_one:
  assumes "distinct (map f xs)" and "x \<in> set xs" and "\<And>y. y \<in> set xs \<Longrightarrow> P y \<Longrightarrow> g y \<noteq> g x"
    and "distinct (map g (filter P xs))" and "\<And>y. g (h y) = g y" and "P (h x)"
  shows "distinct (map g (filter P (map (\<lambda>y. if f y = f x then h y else y) xs)))"
  using assms
proof (induction xs)
  case Nil
  then show ?case by simp
next
  case (Cons a xs)
  show ?case
  proof (cases "a = x")
    case True
    then have ne: "\<And>y. y \<in> set xs \<Longrightarrow> f y \<noteq> f x" using Cons.prems(1) by (auto simp: image_iff)
    then have "map (\<lambda>y. if f y = f x then h y else y) xs = xs" by (simp add: map_idI)
    moreover have "g x \<notin> g ` set (filter P xs)"
    proof
      assume "g x \<in> g ` set (filter P xs)"
      then obtain y where "y \<in> set xs" "P y" "g y = g x" by auto
      with Cons.prems(3) [of y] show False by simp
    qed
    ultimately show ?thesis using True Cons.prems(4,5,6) by (simp split: if_splits)
  next
    case False
    with Cons.prems have x: "x \<in> set xs" "f a \<noteq> f x" by auto
    have "distinct (map g (filter P (map (\<lambda>y. if f y = f x then h y else y) xs)))"
      using Cons.prems x by (intro Cons.IH) (auto split: if_splits)
    moreover have "g a \<notin> g ` set (filter P (map (\<lambda>y. if f y = f x then h y else y) xs))" if "P a"
    proof
      assume "g a \<in> g ` set (filter P (map (\<lambda>y. if f y = f x then h y else y) xs))"
      then obtain y where y: "y \<in> set xs" "P (if f y = f x then h y else y)"
        "g a = g (if f y = f x then h y else y)" by auto
      show False
      proof (cases "f y = f x")
        case True
        then have "y = x" using Cons.prems(1) x(1) y(1) by (auto simp: distinct_map dest: inj_onD)
        with y True Cons.prems(3) [of a] \<open>P a\<close> Cons.prems(5) show ?thesis by simp
      next
        case False
        with y \<open>P a\<close> Cons.prems(4) show ?thesis by auto
      qed
    qed
    ultimately show ?thesis using x(2) by auto
  qed
qed

lemma claim_one_active:
  assumes "db_inv d" and "one_active d" and "fair_turn t"
  shows "one_active (snd (claim_pending_job_stmt w t d))"
proof -
  consider "snd (claim_pending_job_stmt w t d) = d"
    | j where "next_job t d = Some j"
        "snd (claim_pending_job_stmt w t d) = set_indexing t (jr_id j) (bound_worker_id w) d"
    using claim_state [of w t d] by blast
  then show ?thesis
  proof cases
    case 1
    with assms(2) show ?thesis by simp
  next
    case (2 j)
    note j = next_job_Some [OF 2(1) assms(3)]
    have ids: "distinct (map jr_id (processing_data d))" using assms(1) by (simp add: db_inv_def)
    have free: "\<And>y. y \<in> set (processing_data d) \<Longrightarrow> jr_status y = ''indexing'' \<Longrightarrow>
                  jr_address y \<noteq> jr_address j"
      using j(2) by (auto simp: claimable_job_def job_active_def list_ex_iff)
    show ?thesis
      unfolding 2(2) one_active_def set_indexing_def
      using filter_map_one [where P = "\<lambda>r. jr_status r = ''indexing''" and g = jr_address, OF ids j(1) free,
          of "\<lambda>r. r\<lparr>jr_status := ''indexing'',
          jr_worker_id := Some (bound_worker_id w), jr_updated_at := t_now t\<rparr>"]
        assms(2) by (simp add: one_active_def)
  qed
qed

section \<open>Runs of statements\<close>

text \<open>Any sequence of statements of this module, each with the view of its own session.\<close>

datatype jobs_op =
    Claim nat
  | Update i64 string
  | Info i64
  | Create string i16 i16

fun jobs_step :: "jobs_op \<times> turn \<Rightarrow> db \<Rightarrow> db" where
  "jobs_step (Claim w, t) d = snd (run_stmt t (claim_pending_job_stmt w) d)"
| "jobs_step (Update i st, t) d = snd (run_stmt t (update_processing_status_stmt i st) d)"
| "jobs_step (Info i, t) d = snd (run_stmt t (get_job_info_stmt i) d)"
| "jobs_step (Create a l h, t) d = snd (run_stmt t (create_processing_job_stmt a l h) d)"

fun jobs_run :: "(jobs_op \<times> turn) list \<Rightarrow> db \<Rightarrow> db" where
  "jobs_run [] d = d"
| "jobs_run (s # ss) d = jobs_run ss (jobs_step s d)"

lemma jobs_step_cases:
  "jobs_step (op, t) d = d
   \<or> (\<exists>w. op = Claim w \<and> jobs_step (op, t) d = snd (claim_pending_job_stmt w t d))
   \<or> (\<exists>i st. op = Update i st \<and> jobs_step (op, t) d = snd (update_processing_status_stmt i st t d))
   \<or> (\<exists>a l h. op = Create a l h \<and> jobs_step (op, t) d = snd (create_processing_job_stmt a l h t d))"
proof (cases op)
  case (Claim w)
  then show ?thesis using run_stmt_state [of t "claim_pending_job_stmt w" d] by auto
next
  case (Update i st)
  then show ?thesis using run_stmt_state [of t "update_processing_status_stmt i st" d] by auto
next
  case (Info i)
  then show ?thesis using run_stmt_state [of t "get_job_info_stmt i" d] by (auto simp: frame_simps)
next
  case (Create a l h)
  then show ?thesis using run_stmt_state [of t "create_processing_job_stmt a l h" d] by auto
qed

lemma jobs_step_inv: "db_inv d \<Longrightarrow> db_inv (jobs_step s d)"
  using jobs_step_cases [of "fst s" "snd s" d]
  by (auto simp: claim_inv status_inv create_inv)

lemma filter_indexing_update:
  assumes "distinct (map g (filter P xs))" and "\<And>x. g (h x) = g x" and "\<And>x. P (h x) \<Longrightarrow> P x"
  shows "distinct (map g (filter P (map h xs)))"
  using assms
proof (induction xs)
  case (Cons x xs)
  have "distinct (map g (filter P (map h xs)))"
    using Cons.prems by (intro Cons.IH) (simp_all split: if_splits)
  moreover have "g ` set (filter P (map h xs)) \<subseteq> g ` set (filter P xs)"
    using Cons.prems(2,3) by (auto simp: image_iff)
  ultimately show ?case using Cons.prems by (auto split: if_splits)
qed simp

lemma status_one_active: "one_active d \<Longrightarrow> one_active (snd (update_processing_status_stmt i st t d))"
  by (auto simp: one_active_def update_processing_status_stmt_def status_update_applies_def
        intro!: filter_indexing_update split: if_splits)

lemma create_one_active: "one_active d \<Longrightarrow> one_active (snd (create_processing_job_stmt a l h t d))"
  by (simp add: one_active_def create_processing_job_stmt_def)

lemma jobs_step_one_active:
  "db_inv d \<Longrightarrow> one_active d \<Longrightarrow> fair_turn (snd s) \<Longrightarrow> one_active (jobs_step s d)"
  using jobs_step_cases [of "fst s" "snd s" d]
  by (auto simp: claim_one_active status_one_active create_one_active)

lemma jobs_step_keeps_final:
  assumes "db_inv d" and "fair_turn (snd s)" and "j \<in> set (processing_data d)"
    and "jr_status j \<noteq> ''pending''" and "jr_status j \<noteq> ''indexing''"
  shows "j \<in> set (processing_data (jobs_step s d))"
proof -
  obtain op t where s: "s = (op, t)" by (cases s)
  have ids: "distinct (map jr_id (processing_data d))" using assms(1) by (simp add: db_inv_def)
  have claim: "j \<in> set (processing_data (snd (claim_pending_job_stmt w t d)))" for w
  proof -
    consider "snd (claim_pending_job_stmt w t d) = d"
      | k where "next_job t d = Some k"
          "snd (claim_pending_job_stmt w t d) = set_indexing t (jr_id k) (bound_worker_id w) d"
      using claim_state [of w t d] by blast
    then show ?thesis
    proof cases
      case 1
      with assms(3) show ?thesis by simp
    next
      case (2 k)
      with assms(2) s have k: "k \<in> set (processing_data d)" "jr_status k = ''pending''"
        using next_job_Some(1,2) [OF 2(1)] by (auto simp: claimable_job_def)
      with assms(3,4) ids have "jr_id j \<noteq> jr_id k" by (auto simp: distinct_map dest: inj_onD)
      with 2(2) assms(3) show ?thesis by (force simp: set_indexing_def)
    qed
  qed
  moreover have "j \<in> set (processing_data (snd (update_processing_status_stmt i st t d)))" for i st
    using assms(3,5) by (force simp: update_processing_status_stmt_def status_update_applies_def)
  moreover have "j \<in> set (processing_data (snd (create_processing_job_stmt a l h t d)))" for a l h
    using assms(3) by (simp add: create_processing_job_stmt_def)
  ultimately show ?thesis
    using jobs_step_cases [of op t d] assms(3) by (auto simp: s)
qed

section \<open>A small database\<close>

definition plain_turn :: "micros \<Rightarrow> turn" where
  "plain_turn n = \<lparr>t_now = n, t_fault = None, t_locked_job = (\<lambda>_. False), t_locked_sig = (\<lambda>_ _. False),
     t_scan_jobs = (\<lambda>rows. rows), t_scan_sigs = (\<lambda>rows. rows)\<rparr>"

lemma plain_turn_quiet [simp]: "quiet_turn (plain_turn n)" "fair_turn (plain_turn n)"
  by (simp_all add: plain_turn_def quiet_turn_def fair_turn_def)

lemma plain_turn_sel [simp]:
  "t_now (plain_turn n) = n" "t_fault (plain_turn n) = None" "t_locked_job (plain_turn n) i = False"
  "t_locked_sig (plain_turn n) a s = False" "t_scan_jobs (plain_turn n) js = js"
  "t_scan_sigs (plain_turn n) rs = rs"
  by (simp_all add: plain_turn_def)

definition small_job :: "i64 \<Rightarrow> string \<Rightarrow> job_row" where
  "small_job i st = \<lparr>jr_id = i, jr_address = ''owner'', jr_status = st, jr_created_at = 3600000000,
     jr_updated_at = 3600000000, jr_worker_id = None, jr_tx_limit = 100, jr_requested_hours = 1\<rparr>"

definition small_db :: "string \<Rightarrow> bool \<Rightarrow> db" where
  "small_db st fin =
     \<lparr>processing_data = [small_job 1 st], next_job_id = 2,
      signatures = [\<lparr>sr_owner = ''owner'', sr_signature = ''s1'', sr_block_time = Some 1800,
        sr_is_processed = Some fin, sr_is_processing = Some False, sr_started_at = None\<rparr>],
      transactions = [], token_transfers = []\<rparr>"

lemma small_db_inv: "db_inv (small_db st b)"
  by (simp add: db_inv_def small_db_def small_job_def)

section \<open>Properties\<close>

text \<open>C14: a claim takes a job that was pending and whose address had no job being indexed, no younger
  than any other claimable job that no other session holds; that job becomes \<open>indexing\<close> under the
  claiming worker and no other job changes.\<close>

theorem claim_oldest_eligible:
  assumes "db_inv d" and "fair_turn t"
    and "claim_pending_job_stmt w t d = (Ok (Some c), d')"
  shows "\<exists>j \<in> set (processing_data d).
           cj_job_id c = jr_id j \<and> cj_address c = jr_address j \<and> cj_tx_limit c = jr_tx_limit j
           \<and> cj_requested_hours c = jr_requested_hours j
           \<and> claimable_job d j \<and> \<not> t_locked_job t (jr_id j)
           \<and> (\<forall>k \<in> set (processing_data d). claimable_job d k \<and> \<not> t_locked_job t (jr_id k)
                \<longrightarrow> jr_created_at j \<le> jr_created_at k)
           \<and> (\<forall>k \<in> set (processing_data d').
                if jr_id k = jr_id j
                then job_const k = job_const j \<and> jr_status k = ''indexing'' \<and> jr_worker_id k = Some (int w)
                else k \<in> set (processing_data d))"
proof -
  from assms(3) obtain j where j: "next_job t d = Some j" and c: "cj_job_id c = jr_id j"
    "cj_address c = jr_address j" "cj_requested_hours c = jr_requested_hours j"
    "cj_tx_limit c = jr_tx_limit j" and w: "in_signed 16 (bound_worker_id w)"
    and d': "d' = set_indexing t (jr_id j) (bound_worker_id w) d"
    by (rule claim_Some)
  note spec = next_job_Some [OF j assms(2)]
  have bw: "bound_worker_id w = int w"
    using w by (auto simp: bound_worker_id_def i32_try_from_def in_signed_def split: if_splits)
  have ids: "distinct (map jr_id (processing_data d))" using assms(1) by (simp add: db_inv_def)
  have upd: "\<forall>k \<in> set (processing_data d').
                if jr_id k = jr_id j
                then job_const k = job_const j \<and> jr_status k = ''indexing'' \<and> jr_worker_id k = Some (int w)
                else k \<in> set (processing_data d)"
  proof
    fix k assume "k \<in> set (processing_data d')"
    then obtain k0 where k0: "k0 \<in> set (processing_data d)"
      "k = (if jr_id k0 = jr_id j then k0\<lparr>jr_status := ''indexing'', jr_worker_id := Some (int w),
             jr_updated_at := t_now t\<rparr> else k0)"
      by (auto simp: d' set_indexing_def bw)
    show "if jr_id k = jr_id j
          then job_const k = job_const j \<and> jr_status k = ''indexing'' \<and> jr_worker_id k = Some (int w)
          else k \<in> set (processing_data d)"
    proof (cases "jr_id k0 = jr_id j")
      case True
      with ids k0(1) spec(1) have "k0 = j" by (auto simp: distinct_map dest: inj_onD)
      with k0(2) show ?thesis by (simp add: job_const_def)
    next
      case False
      with k0 show ?thesis by simp
    qed
  qed
  from spec c upd show ?thesis by (intro bexI [of _ j]) auto
qed

theorem claim_oldest_eligible_witness:
  "\<exists>j \<in> set (processing_data (small_db ''pending'' False)). jr_id j = 1 \<and>
     claimable_job (small_db ''pending'' False) j"
proof -
  have "claim_pending_job_stmt 7 (plain_turn 4000000000) (small_db ''pending'' False) =
      (Ok (Some \<lparr>cj_job_id = 1, cj_address = ''owner'', cj_requested_hours = 1, cj_tx_limit = 100\<rparr>),
       set_indexing (plain_turn 4000000000) 1 7 (small_db ''pending'' False))"
    by (simp add: claim_pending_job_stmt_def next_job_def small_db_def small_job_def claimable_job_def
        job_active_def bound_worker_id_def i32_try_from_def in_signed_def)
  from claim_oldest_eligible [OF small_db_inv plain_turn_quiet(2) this]
  show ?thesis by auto
qed

text \<open>C23: as long as statements run one after the other, no address ever has two jobs being
  indexed, whatever the statements, their faults and the sessions' views.\<close>

theorem serial_jobs_one_active:
  assumes "db_inv d" and "one_active d" and "list_all (\<lambda>s. fair_turn (snd s)) ss"
  shows "db_inv (jobs_run ss d) \<and> one_active (jobs_run ss d)"
  using assms
  by (induction ss arbitrary: d) (simp_all add: jobs_step_inv jobs_step_one_active)

theorem serial_jobs_one_active_witness:
  "one_active (jobs_run [(Create ''owner'' 100 1, plain_turn 5), (Claim 7, plain_turn 6)]
     (small_db ''pending'' False))"
  using serial_jobs_one_active [of "small_db ''pending'' False"
    "[(Create ''owner'' 100 1, plain_turn 5), (Claim 7, plain_turn 6)]"]
  by (simp add: small_db_inv) (simp add: one_active_def small_db_def small_job_def)

text \<open>A job that is neither pending nor being indexed is final: no sequence of statements
  changes any column of it.\<close>

theorem finished_job_is_final:
  assumes "db_inv d" and "list_all (\<lambda>s. fair_turn (snd s)) ss" and "j \<in> set (processing_data d)"
    and "jr_status j \<notin> {''pending'', ''indexing''}"
  shows "j \<in> set (processing_data (jobs_run ss d))"
  using assms
  by (induction ss arbitrary: d) (simp_all add: jobs_step_inv jobs_step_keeps_final)

theorem finished_job_is_final_witness:
  "small_job 1 ''ready'' \<in> set (processing_data
     (jobs_run [(Claim 7, plain_turn 6), (Update 1 ''error'', plain_turn 9)] (small_db ''ready'' False)))"
  by (rule finished_job_is_final) (simp_all add: small_db_inv, simp_all add: small_db_def small_job_def)

lemma filter_unique_id:
  assumes "distinct (map f xs)" and "x \<in> set xs"
  shows "filter (\<lambda>y. f y = f x \<and> P y) xs = (if P x then [x] else [])"
  using assms
proof (induction xs)
  case (Cons a xs)
  show ?case
  proof (cases "a = x")
    case True
    then have "\<And>y. y \<in> set xs \<Longrightarrow> f y \<noteq> f x" using Cons.prems(1) by (auto simp: image_iff)
    then have "filter (\<lambda>y. f y = f x \<and> P y) xs = []" by (auto simp: filter_empty_conv)
    with True show ?thesis by simp
  next
    case False
    with Cons.prems have "x \<in> set xs" "f a \<noteq> f x" by auto
    with Cons show ?thesis by simp
  qed
qed simp

lemma remaining_zero_iff:
  assumes "list_all (\<lambda>s. sr_is_processed s \<noteq> None) (signatures d)"
  shows "ji_remaining_transactions (job_info_of d j) = 0 \<longleftrightarrow> \<not> window_unprocessed d j"
proof -
  let ?rows = "filter (in_job_window j) (signatures d)"
  have "ji_remaining_transactions (job_info_of d j) = 0 \<longleftrightarrow>
      length (filter (\<lambda>s. sr_is_processed s = Some True) ?rows) = length ?rows"
    by (auto simp: job_info_of_def Let_def)
  also have "\<dots> \<longleftrightarrow> list_all (\<lambda>s. sr_is_processed s = Some True) ?rows"
    by (rule filter_eq_length_iff)
  also have "\<dots> \<longleftrightarrow> \<not> window_unprocessed d j"
  proof -
    have "sr_is_processed s = Some True \<longleftrightarrow> sr_is_processed s \<noteq> Some False" if "s \<in> set (signatures d)" for s
      using assms that by (cases "sr_is_processed s") (auto simp: list_all_iff)
    then show ?thesis by (auto simp: list_all_iff window_unprocessed_def list_ex_iff)
  qed
  finally show ?thesis .
qed

lemma status_update_result:
  assumes "db_inv d" and "j \<in> set (processing_data d)" and "jr_status j = ''indexing''"
  shows "update_processing_status_stmt (jr_id j) st t d =
    (if st \<noteq> ''ready'' \<or> \<not> window_unprocessed d j
     then (Ok 1, d\<lparr>processing_data := map (\<lambda>k. if k = j then j\<lparr>jr_status := st, jr_updated_at := t_now t\<rparr> else k)
                     (processing_data d)\<rparr>)
     else (Ok 0, d))"
proof -
  have ids: "distinct (map jr_id (processing_data d))" using assms(1) by (simp add: db_inv_def)
  let ?applies = "status_update_applies d (jr_id j) st"
  let ?ok = "st \<noteq> ''ready'' \<or> \<not> window_unprocessed d j"
  have same: "k = j" if "k \<in> set (processing_data d)" "jr_id k = jr_id j" for k
    using that ids assms(2) by (auto simp: distinct_map dest: inj_onD)
  have app: "?applies k \<longleftrightarrow> k = j \<and> ?ok" if "k \<in> set (processing_data d)" for k
    using same [OF that] assms(3) by (auto simp: status_update_applies_def)
  have "filter ?applies (processing_data d) = filter (\<lambda>y. jr_id y = jr_id j \<and> ?ok) (processing_data d)"
    by (rule filter_cong) (use app same in auto)
  also have "\<dots> = (if ?ok then [j] else [])" by (rule filter_unique_id [OF ids assms(2)])
  finally have flt: "filter ?applies (processing_data d) = (if ?ok then [j] else [])" .
  have upd: "map (\<lambda>k. if ?applies k then k\<lparr>jr_status := st, jr_updated_at := t_now t\<rparr> else k) (processing_data d) =
      map (\<lambda>k. if k = j \<and> ?ok then j\<lparr>jr_status := st, jr_updated_at := t_now t\<rparr> else k) (processing_data d)"
    by (rule map_cong) (use app in auto)
  show ?thesis
    unfolding update_processing_status_stmt_def flt upd by (cases ?ok) (simp_all add: map_idI)
qed

text \<open>C24: the \<open>ready\<close> update of a job being indexed takes effect exactly when the progress query
  would report nothing remaining in the job's window; otherwise it changes nothing and reports zero
  rows, and an \<open>error\<close> update always takes effect.\<close>

theorem ready_iff_nothing_remaining:
  assumes "db_inv d" and "j \<in> set (processing_data d)" and "jr_status j = ''indexing''"
    and "list_all (\<lambda>s. sr_is_processed s \<noteq> None) (signatures d)"
  shows "(ji_remaining_transactions (job_info_of d j) = 0 \<longrightarrow>
            fst (update_processing_status_stmt (jr_id j) ''ready'' t d) = Ok 1)
       \<and> (ji_remaining_transactions (job_info_of d j) \<noteq> 0 \<longrightarrow>
            update_processing_status_stmt (jr_id j) ''ready'' t d = (Ok 0, d))
       \<and> fst (update_processing_status_stmt (jr_id j) ''error'' t d) = Ok 1"
proof -
  show ?thesis
    using remaining_zero_iff [OF assms(4), of j] status_update_result [OF assms(1-3)] by simp
qed

theorem ready_iff_nothing_remaining_witness:
  "update_processing_status_stmt 1 ''ready'' (plain_turn 9) (small_db ''indexing'' False) =
     (Ok 0, small_db ''indexing'' False)"
proof -
  let ?d = "small_db ''indexing'' False" and ?j = "small_job 1 ''indexing''"
  have "?j \<in> set (processing_data ?d)" "jr_status ?j = ''indexing''" "jr_id ?j = 1"
    "list_all (\<lambda>s. sr_is_processed s \<noteq> None) (signatures ?d)"
    by (auto simp: small_db_def small_job_def)
  moreover have "ji_remaining_transactions (job_info_of ?d ?j) = 1"
    by (simp add: job_info_of_def small_db_def small_job_def in_job_window_def epoch_bigint_def)
  ultimately show ?thesis
    using ready_iff_nothing_remaining [OF small_db_inv, of ?j "''indexing''" False "plain_turn 9"] by simp
qed

text \<open>The counters of the progress query are consistent: neither processed nor remaining is
  negative and they add up to the total; asking changes nothing.\<close>

theorem job_info_consistent:
  "case get_job_info_stmt i t d of
     (Ok (Some info), d') \<Rightarrow>
       d' = d \<and> 0 \<le> ji_processed_transactions info \<and> 0 \<le> ji_remaining_transactions info
       \<and> ji_total_transactions info = ji_processed_transactions info + ji_remaining_transactions info
       \<and> (\<exists>j \<in> set (processing_data d). jr_id j = i \<and> ji_status info = jr_status j)
   | (Ok None, d') \<Rightarrow> d' = d \<and> i \<notin> jr_id ` set (processing_data d)
   | (Err _, _) \<Rightarrow> False"
proof (cases "filter (\<lambda>j. jr_id j = i) (processing_data d)")
  case Nil
  then show ?thesis by (auto simp: get_job_info_stmt_def filter_empty_conv)
next
  case (Cons j rest)
  then have "j \<in> set (filter (\<lambda>j. jr_id j = i) (processing_data d))" by simp
  then have "j \<in> set (processing_data d)" "jr_id j = i" by simp_all
  moreover have "length (filter (\<lambda>s. sr_is_processed s = Some True) (filter (in_job_window j) (signatures d)))
      \<le> length (filter (in_job_window j) (signatures d))"
    by (rule length_filter_le)
  ultimately show ?thesis
    using Cons by (auto simp: get_job_info_stmt_def job_info_of_def Let_def)
qed

text \<open>A worker whose number does not fit the \<open>smallint\<close> column never claims anything: with a
  claimable job in reach its claim fails and leaves every job as it is.\<close>

theorem claim_worker_out_of_range:
  assumes "2 ^ 15 \<le> w"
  shows "claim_pending_job_stmt w t d =
    (if next_job t d = None then Ok None else Err ''smallint out of range'', d)"
proof -
  have "\<not> in_signed 16 (bound_worker_id w)"
    using assms by (auto simp: bound_worker_id_def i32_try_from_def in_signed_def)
  then show ?thesis by (simp add: claim_pending_job_stmt_def split: option.split)
qed

theorem claim_worker_out_of_range_witness:
  "fst (claim_pending_job_stmt 40000 (plain_turn 9) (small_db ''pending'' False)) =
     Err ''smallint out of range''"
  using claim_worker_out_of_range [of 40000 "plain_turn 9" "small_db ''pending'' False"]
  by (simp add: next_job_def small_db_def small_job_def claimable_job_def job_active_def)

end
