(* ===== verification/SignaturesDb.thy ===== *)
theory SignaturesDb
  imports JobsDb
begin

text \<open>
  The statements of \<open>src/db/signatures.rs\<close>: leasing the unprocessed signatures of an address, marking
  signatures processed and storing a page of signatures.
\<close>

section \<open>The statements\<close>

definition lease_micros :: micros where
  "lease_micros = 5 * 60 * 1000000"

definition claimable_sig :: "string \<Rightarrow> micros \<Rightarrow> sig_row \<Rightarrow> bool" where
  "claimable_sig address now s =
     (sr_owner s = address
      \<and> sr_is_processed s = Some False
      \<and> (sr_is_processing s = Some False
         \<or> sr_started_at s = None
         \<or> (case sr_started_at s of None \<Rightarrow> False | Some st \<Rightarrow> st < now - lease_micros)))"

definition chosen_sigs :: "string \<Rightarrow> nat \<Rightarrow> turn \<Rightarrow> db \<Rightarrow> string list" where
  "chosen_sigs address n t d =
     map sr_signature
       (take n (filter (\<lambda>s. claimable_sig address (t_now t) s
                            \<and> \<not> t_locked_sig t (sr_owner s) (sr_signature s))
                       (t_scan_sigs t (signatures d))))"

definition get_unprocessed_signatures_stmt ::
    "string \<Rightarrow> i64 \<Rightarrow> turn \<Rightarrow> db \<Rightarrow> string list result \<times> db" where
  "get_unprocessed_signatures_stmt address limit t d =
     (if limit < 0 then (Err ''LIMIT must not be negative'', d)
      else let chosen = chosen_sigs address (nat limit) t d;
               hit = (\<lambda>s. sr_owner s = address \<and> sr_signature s \<in> set chosen)
           in (Ok (map sr_signature (filter hit (t_scan_sigs t (signatures d)))),
               d\<lparr>signatures := map (\<lambda>s. if hit s
                    then s\<lparr>sr_is_processing := Some True, sr_started_at := Some (t_now t)\<rparr> else s)
                  (signatures d)\<rparr>))"

definition mark_applies :: "string \<Rightarrow> string list \<Rightarrow> sig_row \<Rightarrow> bool" where
  "mark_applies address sigs s =
     (sr_owner s = address \<and> sr_signature s \<in> set sigs \<and> sr_is_processed s = Some False)"

definition mark_signatures_processed_stmt ::
    "string \<Rightarrow> string list \<Rightarrow> turn \<Rightarrow> db \<Rightarrow> nat result \<times> db" where
  "mark_signatures_processed_stmt address sigs t d =
     (Ok (length (filter (mark_applies address sigs) (signatures d))),
      d\<lparr>signatures := map (\<lambda>s. if mark_applies address sigs s
           then s\<lparr>sr_is_processed := Some True, sr_is_processing := Some False\<rparr> else s)
         (signatures d)\<rparr>)"

definition new_sig_row :: "string \<Rightarrow> signature_info \<Rightarrow> sig_row" where
  "new_sig_row address s =
     \<lparr>sr_owner = address, sr_signature = sig_signature s, sr_block_time = sig_block_time s,
      sr_is_processed = Some False, sr_is_processing = Some False, sr_started_at = None\<rparr>"

definition write_signatures_stmt ::
    "signature_info list \<Rightarrow> string \<Rightarrow> turn \<Rightarrow> db \<Rightarrow> nat result \<times> db" where
  "write_signatures_stmt page address t d =
     (let (rows, n) = insert_on_conflict sig_key (signatures d) (map (new_sig_row address) page)
      in (Ok n, d\<lparr>signatures := rows\<rparr>))"


section \<open>Facts on one statement\<close>

lemma fair_distinct:
  "fair_turn t \<Longrightarrow> distinct rows \<Longrightarrow> distinct (t_scan_sigs t rows)"
  by (metis card_distinct distinct_card fair_scan(2,4))

lemma chosen_sigs_claimable:
  assumes "fair_turn t" and "x \<in> set (chosen_sigs a n t d)"
  obtains s where "s \<in> set (signatures d)" and "sr_signature s = x" and "claimable_sig a (t_now t) s"
    and "\<not> t_locked_sig t a x"
  using assms by (auto simp: chosen_sigs_def claimable_sig_def fair_scan dest!: in_set_takeD)

lemma sigs_inj:
  assumes "db_inv d"
  shows "s \<in> set (signatures d) \<Longrightarrow> s' \<in> set (signatures d) \<Longrightarrow> sr_owner s = sr_owner s' \<Longrightarrow>
    sr_signature s = sr_signature s' \<Longrightarrow> s = s'"
  using assms inj_onD [of sig_key "set (signatures d)" s s']
  by (simp add: db_inv_def distinct_map sig_key_def)

lemma sigs_scan_distinct:
  assumes "db_inv d" and "fair_turn t" and "\<And>s. P s \<Longrightarrow> sr_owner s = a"
  shows "distinct (map sr_signature (filter P (t_scan_sigs t (signatures d))))"
proof -
  have "distinct (signatures d)" using assms(1) by (simp add: db_inv_def distinct_map)
  then have "distinct (t_scan_sigs t (signatures d))" by (rule fair_distinct [OF assms(2)])
  then show ?thesis
    using sigs_inj [OF assms(1)] assms(3) by (auto simp: distinct_map inj_on_def fair_scan [OF assms(2)])
qed

lemma chosen_sigs_distinct: "db_inv d \<Longrightarrow> fair_turn t \<Longrightarrow> distinct (chosen_sigs a n t d)"
  unfolding chosen_sigs_def take_map [symmetric]
  by (intro distinct_take sigs_scan_distinct [where a = a]) (simp_all add: claimable_sig_def)

lemma chosen_sigs_length:
  assumes "fair_turn t"
  shows "length (chosen_sigs a n t d) \<le> n"
  by (simp add: chosen_sigs_def)

text \<open>The rows the update hits carry exactly the chosen signatures.\<close>

lemma claimed_rows:
  assumes "db_inv d" and "fair_turn t"
    and "get_unprocessed_signatures_stmt a limit t d = (Ok sigs, d')"
  shows "0 \<le> limit" and "set sigs = set (chosen_sigs a (nat limit) t d)" and "distinct sigs"
    and "d' = d\<lparr>signatures := map (\<lambda>s. if sr_owner s = a \<and> sr_signature s \<in> set sigs
           then s\<lparr>sr_is_processing := Some True, sr_started_at := Some (t_now t)\<rparr> else s) (signatures d)\<rparr>"
proof -
  let ?c = "chosen_sigs a (nat limit) t d"
  have r: "0 \<le> limit"
    "sigs = map sr_signature (filter (\<lambda>s. sr_owner s = a \<and> sr_signature s \<in> set ?c)
        (t_scan_sigs t (signatures d)))"
    "d' = d\<lparr>signatures := map (\<lambda>s. if sr_owner s = a \<and> sr_signature s \<in> set ?c
           then s\<lparr>sr_is_processing := Some True, sr_started_at := Some (t_now t)\<rparr> else s) (signatures d)\<rparr>"
    using assms(3) by (auto simp: get_unprocessed_signatures_stmt_def Let_def split: if_splits)
  show "0 \<le> limit" by (rule r(1))
  have "x \<in> set sigs" if x: "x \<in> set ?c" for x
  proof -
    obtain s where "s \<in> set (signatures d)" "sr_signature s = x" "claimable_sig a (t_now t) s"
      using chosen_sigs_claimable [OF assms(2) x] by blast
    with x show ?thesis by (auto simp: r(2) fair_scan [OF assms(2)] claimable_sig_def)
  qed
  moreover have "set sigs \<subseteq> set ?c" by (auto simp: r(2))
  ultimately show eq: "set sigs = set ?c" by blast
  show "distinct sigs"
    unfolding r(2) by (rule sigs_scan_distinct [OF assms(1,2)]) simp
  show "d' = d\<lparr>signatures := map (\<lambda>s. if sr_owner s = a \<and> sr_signature s \<in> set sigs
           then s\<lparr>sr_is_processing := Some True, sr_started_at := Some (t_now t)\<rparr> else s) (signatures d)\<rparr>"
    unfolding eq by (rule r(3))
qed

lemma claimed_length:
  assumes "db_inv d" and "fair_turn t"
    and "get_unprocessed_signatures_stmt a limit t d = (Ok sigs, d')"
  shows "length sigs = min (nat limit)
     (length (filter (\<lambda>s. claimable_sig a (t_now t) s \<and> \<not> t_locked_sig t (sr_owner s) (sr_signature s))
        (t_scan_sigs t (signatures d))))"
proof -
  note rows = claimed_rows [OF assms]
  have "length sigs = card (set (chosen_sigs a (nat limit) t d))"
    using rows(2,3) by (simp add: distinct_card [symmetric])
  also have "\<dots> = length (chosen_sigs a (nat limit) t d)"
    by (rule distinct_card) (rule chosen_sigs_distinct [OF assms(1,2)])
  finally show ?thesis by (simp add: chosen_sigs_def)
qed

section \<open>Frames and the invariant\<close>

lemma sigs_claim_state:
  "snd (get_unprocessed_signatures_stmt a limit t d) =
     d\<lparr>signatures := map (\<lambda>s. if 0 \<le> limit \<and> sr_owner s = a
            \<and> sr_signature s \<in> set (chosen_sigs a (nat limit) t d)
        then s\<lparr>sr_is_processing := Some True, sr_started_at := Some (t_now t)\<rparr> else s) (signatures d)\<rparr>"
  by (simp add: get_unprocessed_signatures_stmt_def Let_def)

lemma sigs_claim_rows:
  "signatures (snd (get_unprocessed_signatures_stmt a limit t d)) =
     map (\<lambda>s. if 0 \<le> limit \<and> sr_owner s = a \<and> sr_signature s \<in> set (chosen_sigs a (nat limit) t d)
        then s\<lparr>sr_is_processing := Some True, sr_started_at := Some (t_now t)\<rparr> else s) (signatures d)"
  by (simp add: sigs_claim_state)

lemma mark_rows:
  "signatures (snd (mark_signatures_processed_stmt a ss t d)) =
     map (\<lambda>s. if mark_applies a ss s
        then s\<lparr>sr_is_processed := Some True, sr_is_processing := Some False\<rparr> else s) (signatures d)"
  by (simp add: mark_signatures_processed_stmt_def)

lemma sigs_claim_frame [frame_simps]:
  "processing_data (snd (get_unprocessed_signatures_stmt a l t d)) = processing_data d"
  "next_job_id (snd (get_unprocessed_signatures_stmt a l t d)) = next_job_id d"
  "transactions (snd (get_unprocessed_signatures_stmt a l t d)) = transactions d"
  "token_transfers (snd (get_unprocessed_signatures_stmt a l t d)) = token_transfers d"
  by (simp_all add: sigs_claim_state)

lemma mark_frame [frame_simps]:
  "processing_data (snd (mark_signatures_processed_stmt a ss t d)) = processing_data d"
  "next_job_id (snd (mark_signatures_processed_stmt a ss t d)) = next_job_id d"
  "transactions (snd (mark_signatures_processed_stmt a ss t d)) = transactions d"
  "token_transfers (snd (mark_signatures_processed_stmt a ss t d)) = token_transfers d"
  by (simp_all add: mark_signatures_processed_stmt_def)

lemma write_frame [frame_simps]:
  "processing_data (snd (write_signatures_stmt p a t d)) = processing_data d"
  "next_job_id (snd (write_signatures_stmt p a t d)) = next_job_id d"
  "transactions (snd (write_signatures_stmt p a t d)) = transactions d"
  "token_transfers (snd (write_signatures_stmt p a t d)) = token_transfers d"
  by (simp_all add: write_signatures_stmt_def case_prod_beta)

lemma write_signatures_rows:
  "signatures (snd (write_signatures_stmt p a t d)) =
     fst (insert_on_conflict sig_key (signatures d) (map (new_sig_row a) p))"
  "fst (write_signatures_stmt p a t d) =
     Ok (snd (insert_on_conflict sig_key (signatures d) (map (new_sig_row a) p)))"
  by (simp_all add: write_signatures_stmt_def case_prod_beta)

lemma sigs_claim_keys:
  "map sig_key (signatures (snd (get_unprocessed_signatures_stmt a l t d))) = map sig_key (signatures d)"
  by (simp add: sigs_claim_state sig_key_def)

lemma mark_keys:
  "map sig_key (signatures (snd (mark_signatures_processed_stmt a ss t d))) = map sig_key (signatures d)"
  by (simp add: mark_signatures_processed_stmt_def sig_key_def)

lemma db_inv_signatures:
  assumes "db_inv d" and "distinct (map sig_key (signatures d'))"
    and "processing_data d' = processing_data d" and "next_job_id d' = next_job_id d"
    and "transactions d' = transactions d" and "token_transfers d' = token_transfers d"
  shows "db_inv d'"
  using assms by (simp add: db_inv_def)

lemma sigs_claim_inv: "db_inv d \<Longrightarrow> db_inv (snd (get_unprocessed_signatures_stmt a l t d))"
  by (rule db_inv_signatures) (simp_all only: sigs_claim_keys frame_simps, simp add: db_inv_def)

lemma mark_inv: "db_inv d \<Longrightarrow> db_inv (snd (mark_signatures_processed_stmt a ss t d))"
  by (rule db_inv_signatures) (simp_all only: mark_keys frame_simps, simp add: db_inv_def)

lemma write_inv: "db_inv d \<Longrightarrow> db_inv (snd (write_signatures_stmt p a t d))"
  by (rule db_inv_signatures)
     (simp_all add: write_signatures_rows frame_simps sigtab.ins_unique db_inv_def)

section \<open>Runs of statements\<close>

datatype sigs_op =
    Lease string i64
  | Mark string "string list"
  | Page "signature_info list" string

fun sigs_step :: "sigs_op \<times> turn \<Rightarrow> db \<Rightarrow> db" where
  "sigs_step (Lease a l, t) d = snd (run_stmt t (get_unprocessed_signatures_stmt a l) d)"
| "sigs_step (Mark a ss, t) d = snd (run_stmt t (mark_signatures_processed_stmt a ss) d)"
| "sigs_step (Page p a, t) d = snd (run_stmt t (write_signatures_stmt p a) d)"

fun sigs_run :: "(sigs_op \<times> turn) list \<Rightarrow> db \<Rightarrow> db" where
  "sigs_run [] d = d"
| "sigs_run (s # ss) d = sigs_run ss (sigs_step s d)"

lemma sigs_step_cases:
  "sigs_step (op, t) d = d
   \<or> (\<exists>a l. op = Lease a l \<and> sigs_step (op, t) d = snd (get_unprocessed_signatures_stmt a l t d))
   \<or> (\<exists>a ss. op = Mark a ss \<and> sigs_step (op, t) d = snd (mark_signatures_processed_stmt a ss t d))
   \<or> (\<exists>p a. op = Page p a \<and> sigs_step (op, t) d = snd (write_signatures_stmt p a t d))"
proof (cases op)
  case (Lease a l)
  then show ?thesis using run_stmt_state [of t "get_unprocessed_signatures_stmt a l" d] by auto
next
  case (Mark a ss)
  then show ?thesis using run_stmt_state [of t "mark_signatures_processed_stmt a ss" d] by auto
next
  case (Page p a)
  then show ?thesis using run_stmt_state [of t "write_signatures_stmt p a" d] by auto
qed

lemma sigs_step_inv: "db_inv d \<Longrightarrow> db_inv (sigs_step s d)"
  using sigs_step_cases [of "fst s" "snd s" d]
  by (auto simp: sigs_claim_inv mark_inv write_inv)

text \<open>What a step can do to the row of a signature: keep it, renew its lease at the time of the step, or
  mark it processed.\<close>

lemma sigs_step_row:
  assumes "s \<in> set (signatures d)"
  shows "\<exists>s' \<in> set (signatures (sigs_step (op, t) d)). sig_key s' = sig_key s
    \<and> sr_block_time s' = sr_block_time s
    \<and> (s' = s
       \<or> s' = s\<lparr>sr_is_processing := Some True, sr_started_at := Some (t_now t)\<rparr>
       \<or> s' = s\<lparr>sr_is_processed := Some True, sr_is_processing := Some False\<rparr>)"
proof -
  define P where "P d' \<longleftrightarrow> (\<exists>s' \<in> set (signatures d'). sig_key s' = sig_key s
    \<and> sr_block_time s' = sr_block_time s
    \<and> (s' = s
       \<or> s' = s\<lparr>sr_is_processing := Some True, sr_started_at := Some (t_now t)\<rparr>
       \<or> s' = s\<lparr>sr_is_processed := Some True, sr_is_processing := Some False\<rparr>))" for d' :: db
  have upd: "P d'" if "signatures d' = map (\<lambda>r. if Q r then h r else r) (signatures d)"
      "h s = s\<lparr>sr_is_processing := Some True, sr_started_at := Some (t_now t)\<rparr>
       \<or> h s = s\<lparr>sr_is_processed := Some True, sr_is_processing := Some False\<rparr>" for d' Q h
    unfolding P_def using that assms by (intro bexI [of _ "if Q s then h s else s"]) (auto simp: sig_key_def)
  have "P d" unfolding P_def using assms by auto
  moreover have "P (snd (get_unprocessed_signatures_stmt a l t d))" for a l
    by (rule upd [OF sigs_claim_rows]) simp
  moreover have "P (snd (mark_signatures_processed_stmt a ss t d))" for a ss
    by (rule upd [OF mark_rows]) simp
  moreover have "P (snd (write_signatures_stmt p a t d))" for p a
    unfolding P_def using assms sigtab.ins_keeps [OF assms] by (intro bexI [of _ s]) (simp_all add: write_signatures_rows)
  ultimately have "P (sigs_step (op, t) d)" using sigs_step_cases [of op t d] by metis
  then show ?thesis by (simp only: P_def)
qed

definition sig_processed :: "db \<Rightarrow> string \<Rightarrow> string \<Rightarrow> bool" where
  "sig_processed d a x =
     list_ex (\<lambda>s. sr_owner s = a \<and> sr_signature s = x \<and> sr_is_processed s = Some True) (signatures d)"

text \<open>A signature that is processed, or whose lease started at \<open>since\<close> or later.\<close>

definition held_since :: "micros \<Rightarrow> db \<Rightarrow> string \<Rightarrow> string \<Rightarrow> bool" where
  "held_since since d a x =
     list_ex (\<lambda>s. sr_owner s = a \<and> sr_signature s = x
        \<and> (sr_is_processed s = Some True
           \<or> sr_is_processing s = Some True
             \<and> (case sr_started_at s of None \<Rightarrow> False | Some st \<Rightarrow> since \<le> st))) (signatures d)"

lemma sigs_step_processed:
  assumes "sig_processed d a x"
  shows "sig_processed (sigs_step st d) a x"
proof -
  from assms obtain s where s: "s \<in> set (signatures d)" "sig_key s = (a, x)" "sr_is_processed s = Some True"
    by (auto simp: sig_processed_def list_ex_iff sig_key_def)
  then show ?thesis
    using sigs_step_row [OF s(1), of "fst st" "snd st"]
    by (auto simp: sig_processed_def list_ex_iff sig_key_def)
qed

lemma sigs_step_held:
  assumes "held_since since d a x" and "since \<le> t_now (snd st)"
  shows "held_since since (sigs_step st d) a x"
proof -
  let ?h = "\<lambda>s. sr_is_processed s = Some True \<or> sr_is_processing s = Some True
             \<and> (case sr_started_at s of None \<Rightarrow> False | Some st \<Rightarrow> since \<le> st)"
  from assms(1) obtain s where s: "s \<in> set (signatures d)" "sig_key s = (a, x)" "?h s"
    by (auto simp: held_since_def list_ex_iff sig_key_def)
  from sigs_step_row [OF s(1), of "fst st" "snd st"] obtain s' where
    s': "s' \<in> set (signatures (sigs_step st d))" "sig_key s' = sig_key s" and
    "s' = s \<or> s' = s\<lparr>sr_is_processing := Some True, sr_started_at := Some (t_now (snd st))\<rparr>
       \<or> s' = s\<lparr>sr_is_processed := Some True, sr_is_processing := Some False\<rparr>" by auto
  then have "?h s'" using s(3) assms(2) by auto
  with s' s(2) show ?thesis
    unfolding held_since_def list_ex_iff by (intro bexI [of _ s']) (auto simp: sig_key_def)
qed

lemma sigs_run_processed: "sig_processed d a x \<Longrightarrow> sig_processed (sigs_run ss d) a x"
  by (induction ss arbitrary: d) (simp_all add: sigs_step_processed)

lemma sigs_run_held:
  "held_since since d a x \<Longrightarrow> list_all (\<lambda>s. since \<le> t_now (snd s)) ss \<Longrightarrow>
   held_since since (sigs_run ss d) a x"
  by (induction ss arbitrary: d) (simp_all add: sigs_step_held)

lemma sigs_run_inv: "db_inv d \<Longrightarrow> db_inv (sigs_run ss d)"
  by (induction ss arbitrary: d) (simp_all add: sigs_step_inv)

lemma held_not_claimable:
  assumes "held_since since d a x" and "db_inv d" and "now \<le> since + lease_micros"
    and "s \<in> set (signatures d)" and "sr_signature s = x"
  shows "\<not> claimable_sig a now s"
proof
  assume c: "claimable_sig a now s"
  from assms(1) obtain s' where s': "s' \<in> set (signatures d)" "sr_owner s' = a" "sr_signature s' = x"
    "sr_is_processed s' = Some True \<or> sr_is_processing s' = Some True
       \<and> (case sr_started_at s' of None \<Rightarrow> False | Some st \<Rightarrow> since \<le> st)"
    by (auto simp: held_since_def list_ex_iff)
  from c have "sr_owner s = a" by (simp add: claimable_sig_def)
  with assms(4,5) s' have "s' = s" by (intro sigs_inj [OF assms(2)]) simp_all
  with s'(4) c assms(3) show False by (auto simp: claimable_sig_def split: option.splits)
qed

section \<open>Properties\<close>

text \<open>C15: a successful request for work returns distinct signatures of the address, at most the limit;
  each one was unprocessed and not leased within the last five minutes, and its row is now leased to
  the caller from this moment, every other row being untouched; and if it returns fewer than the
  limit, then nothing claimable that no other session holds was left out.\<close>

theorem lease_signatures:
  assumes "db_inv d" and "fair_turn t"
    and "get_unprocessed_signatures_stmt a limit t d = (Ok sigs, d')"
  shows "distinct sigs \<and> int (length sigs) \<le> limit
       \<and> (\<forall>x \<in> set sigs. \<exists>s \<in> set (signatures d).
             sr_signature s = x \<and> claimable_sig a (t_now t) s \<and> \<not> t_locked_sig t a x)
       \<and> signatures d' = map (\<lambda>s. if sr_owner s = a \<and> sr_signature s \<in> set sigs
             then s\<lparr>sr_is_processing := Some True, sr_started_at := Some (t_now t)\<rparr> else s) (signatures d)
       \<and> (int (length sigs) < limit \<longrightarrow>
            (\<forall>s \<in> set (signatures d). claimable_sig a (t_now t) s
               \<and> \<not> t_locked_sig t (sr_owner s) (sr_signature s) \<longrightarrow> sr_signature s \<in> set sigs))"
proof -
  note rows = claimed_rows [OF assms]
  let ?f = "filter (\<lambda>s. claimable_sig a (t_now t) s \<and> \<not> t_locked_sig t (sr_owner s) (sr_signature s))
        (t_scan_sigs t (signatures d))"
  have len: "length sigs = min (nat limit) (length ?f)" by (rule claimed_length [OF assms])
  have "sr_signature s \<in> set sigs"
    if "int (length sigs) < limit" "s \<in> set (signatures d)" "claimable_sig a (t_now t) s"
      "\<not> t_locked_sig t (sr_owner s) (sr_signature s)" for s
  proof -
    have "take (nat limit) ?f = ?f" using len that(1) by simp
    moreover have "s \<in> set ?f" using that by (simp add: fair_scan [OF assms(2)])
    ultimately show ?thesis unfolding rows(2) chosen_sigs_def by simp
  qed
  moreover have "\<exists>s \<in> set (signatures d). sr_signature s = x \<and> claimable_sig a (t_now t) s
      \<and> \<not> t_locked_sig t a x" if "x \<in> set sigs" for x
    using chosen_sigs_claimable [OF assms(2), of x a "nat limit" d] that rows(2) by blast
  moreover have "int (length sigs) \<le> limit" using len rows(1) by simp
  moreover have "signatures d' = map (\<lambda>s. if sr_owner s = a \<and> sr_signature s \<in> set sigs
             then s\<lparr>sr_is_processing := Some True, sr_started_at := Some (t_now t)\<rparr> else s) (signatures d)"
    using arg_cong [OF rows(4), of signatures] by simp
  ultimately show ?thesis using rows(3) by blast
qed

lemma lease_small:
  "get_unprocessed_signatures_stmt ''owner'' 10 (plain_turn 7) (small_db ''indexing'' False) =
     (Ok [''s1''], snd (get_unprocessed_signatures_stmt ''owner'' 10 (plain_turn 7) (small_db ''indexing'' False)))"
  by (simp add: get_unprocessed_signatures_stmt_def chosen_sigs_def small_db_def claimable_sig_def)

theorem lease_signatures_witness:
  "\<exists>s \<in> set (signatures (small_db ''indexing'' False)).
     sr_signature s = ''s1'' \<and> claimable_sig ''owner'' 7 s"
  using lease_signatures [OF small_db_inv plain_turn_quiet(2) lease_small] by auto

text \<open>C13: leases are exclusive: whatever requests for work, marks and pages are executed after a
  signature was handed out, with whatever faults, no request within the next five minutes hands it
  out again.\<close>

theorem lease_exclusive:
  assumes "db_inv d" and "fair_turn t" and "fair_turn t'"
    and "get_unprocessed_signatures_stmt a limit t d = (Ok sigs, d')"
    and "list_all (\<lambda>s. t_now t \<le> t_now (snd s)) ss"
    and "get_unprocessed_signatures_stmt a limit' t' (sigs_run ss d') = (Ok sigs', d'')"
    and "t_now t' \<le> t_now t + lease_micros"
  shows "set sigs \<inter> set sigs' = {}"
proof (rule ccontr)
  assume "set sigs \<inter> set sigs' \<noteq> {}"
  then obtain x where x: "x \<in> set sigs" "x \<in> set sigs'" by blast
  note rows = claimed_rows [OF assms(1,2,4)]
  have inv: "db_inv d'" using sigs_claim_inv [OF assms(1), of a limit t] by (simp add: assms(4))
  from chosen_sigs_claimable [OF assms(2), of x a "nat limit" d] x(1) rows(2)
  obtain s where "s \<in> set (signatures d)" "sr_signature s = x" "sr_owner s = a"
    by (auto simp: claimable_sig_def)
  moreover from this have "s\<lparr>sr_is_processing := Some True, sr_started_at := Some (t_now t)\<rparr>
      \<in> set (signatures d')"
    unfolding rows(4) using x(1) by (auto intro!: image_eqI [of _ _ s])
  ultimately have "held_since (t_now t) d' a x"
    unfolding held_since_def list_ex_iff by (rule_tac bexI) auto
  then have held: "held_since (t_now t) (sigs_run ss d') a x" by (rule sigs_run_held [OF _ assms(5)])
  note inv' = sigs_run_inv [OF inv, of ss]
  from chosen_sigs_claimable [OF assms(3), of x a "nat limit'" "sigs_run ss d'"] x(2)
    claimed_rows(2) [OF inv' assms(3,6)]
  obtain s' where "s' \<in> set (signatures (sigs_run ss d'))" "sr_signature s' = x"
    "claimable_sig a (t_now t') s'" by blast
  with held_not_claimable [OF held inv' assms(7)] show False by blast
qed

theorem lease_exclusive_witness:
  "set [''s1''] \<inter> set ([] :: string list) = {}"
proof -
  let ?d = "small_db ''indexing'' False"
  let ?d' = "snd (get_unprocessed_signatures_stmt ''owner'' 10 (plain_turn 7) ?d)"
  have two: "get_unprocessed_signatures_stmt ''owner'' 10 (plain_turn 60000007)
      (sigs_run [(Lease ''owner'' 5, plain_turn 8)] ?d') = (Ok [], snd (get_unprocessed_signatures_stmt
        ''owner'' 10 (plain_turn 60000007) (sigs_run [(Lease ''owner'' 5, plain_turn 8)] ?d')))"
    by (simp add: get_unprocessed_signatures_stmt_def chosen_sigs_def small_db_def claimable_sig_def
        lease_micros_def)
  show ?thesis
    by (rule lease_exclusive [OF small_db_inv plain_turn_quiet(2) plain_turn_quiet(2) lease_small _ two])
       (simp_all add: lease_micros_def)
qed

text \<open>A signature that was processed stays processed: no request for work, mark or page changes
  that, and it is never handed out again.\<close>

theorem processed_is_final:
  assumes "db_inv d" and "fair_turn t" and "sig_processed d a x"
    and "get_unprocessed_signatures_stmt a limit t (sigs_run ss d) = (Ok sigs, d')"
  shows "sig_processed (sigs_run ss d) a x \<and> x \<notin> set sigs"
proof -
  have "sig_processed (sigs_run ss d) a x" by (rule sigs_run_processed [OF assms(3)])
  moreover have "x \<notin> set sigs"
  proof
    assume "x \<in> set sigs"
    note inv = sigs_run_inv [OF assms(1), of ss]
    have "held_since (t_now t) (sigs_run ss d) a x"
      using \<open>sig_processed (sigs_run ss d) a x\<close> by (auto simp: sig_processed_def held_since_def list_ex_iff)
    moreover obtain s where "s \<in> set (signatures (sigs_run ss d))" "sr_signature s = x"
        "claimable_sig a (t_now t) s"
      using chosen_sigs_claimable [OF assms(2), of x a "nat limit" "sigs_run ss d"] \<open>x \<in> set sigs\<close>
        claimed_rows(2) [OF inv assms(2,4)] by blast
    ultimately show False using held_not_claimable [OF _ inv] by (simp add: lease_micros_def)
  qed
  ultimately show ?thesis by simp
qed

theorem processed_is_final_witness:
  "sig_processed (sigs_run [(Mark ''owner'' [''s1''], plain_turn 3)] (small_db ''indexing'' True)) ''owner'' ''s1''"
proof -
  let ?d = "small_db ''indexing'' True" and ?ss = "[(Mark ''owner'' [''s1''], plain_turn 3)]"
  have "sig_processed ?d ''owner'' ''s1''" by (simp add: sig_processed_def small_db_def)
  moreover have "get_unprocessed_signatures_stmt ''owner'' 5 (plain_turn 9) (sigs_run ?ss ?d) =
      (Ok [], snd (get_unprocessed_signatures_stmt ''owner'' 5 (plain_turn 9) (sigs_run ?ss ?d)))"
    by (simp add: get_unprocessed_signatures_stmt_def chosen_sigs_def small_db_def claimable_sig_def
        mark_signatures_processed_stmt_def mark_applies_def)
  ultimately show ?thesis
    using processed_is_final [OF small_db_inv plain_turn_quiet(2)] by blast
qed

text \<open>Marking reports the signatures of the list that were still unprocessed, makes exactly the
  listed rows of the address processed and unleased, and marking again changes and reports nothing.\<close>

theorem mark_twice:
  "(let (r, d') = mark_signatures_processed_stmt a ss t d
    in r = Ok (length (filter (mark_applies a ss) (signatures d)))
       \<and> \<not> list_ex (mark_applies a ss) (signatures d')
       \<and> mark_signatures_processed_stmt a ss t' d' = (Ok 0, d'))"
proof -
  let ?d = "snd (mark_signatures_processed_stmt a ss t d)"
  have none: "\<not> mark_applies a ss s" if "s \<in> set (signatures ?d)" for s
  proof -
    from that obtain r where "s = (if mark_applies a ss r
        then r\<lparr>sr_is_processed := Some True, sr_is_processing := Some False\<rparr> else r)"
      by (auto simp only: mark_rows set_map)
    then show ?thesis by (cases "mark_applies a ss r") (simp_all add: mark_applies_def)
  qed
  then have "map (\<lambda>s. if mark_applies a ss s
        then s\<lparr>sr_is_processed := Some True, sr_is_processing := Some False\<rparr> else s) (signatures ?d)
      = signatures ?d"
    by (intro map_idI) simp
  moreover have "filter (mark_applies a ss) (signatures ?d) = []"
    using none by (simp add: filter_empty_conv)
  ultimately have "mark_signatures_processed_stmt a ss t' ?d = (Ok 0, ?d)"
    unfolding mark_signatures_processed_stmt_def [of _ _ _ ?d] by simp
  with none show ?thesis
    by (simp add: case_prod_beta list_ex_iff) (simp add: mark_signatures_processed_stmt_def)
qed

text \<open>C33: storing a page keeps every row there was and adds exactly one row, unprocessed and unleased, for
  each signature of the page that the address did not have, reports how many these are, and storing it
  again (or any part of it) changes and reports nothing, so a page whose acknowledgement was lost can
  be sent again.\<close>

theorem write_page_idempotent:
  assumes "set part \<subseteq> set page"
  shows "(let (r, d') = write_signatures_stmt page a t d
          in (\<exists>new. signatures d' = signatures d @ new \<and> distinct (map sig_key new)
                \<and> set new \<subseteq> new_sig_row a ` set page
                \<and> sig_key ` set new = {(a, sig_signature s) | s. s \<in> set page} - sig_key ` set (signatures d)
                \<and> r = Ok (length new))
             \<and> write_signatures_stmt part a t' d' = (Ok 0, d'))"
proof -
  let ?rs = "map (new_sig_row a) page" and ?t = "signatures d"
  let ?d = "snd (write_signatures_stmt page a t d)"
  have keys: "sig_key ` set ?rs = {(a, sig_signature s) | s. s \<in> set page}"
    by (auto simp: sig_key_def new_sig_row_def image_iff)
  have "\<exists>new. signatures ?d = ?t @ new \<and> distinct (map sig_key new) \<and> set new \<subseteq> new_sig_row a ` set page
      \<and> sig_key ` set new = {(a, sig_signature s) | s. s \<in> set page} - sig_key ` set ?t
      \<and> fst (write_signatures_stmt page a t d) = Ok (length new)"
  proof (rule sigtab.ins_added [of ?t ?rs])
    fix new
    assume "fst (insert_on_conflict sig_key ?t ?rs) = ?t @ new" "distinct (map sig_key new)"
      "set new \<subseteq> set ?rs" "sig_key ` set new = sig_key ` set ?rs - sig_key ` set ?t"
    then show ?thesis
      using sigtab.ins_count [of ?t ?rs] unfolding keys
      by (intro exI [of _ new]) (simp add: write_signatures_rows)
  qed
  moreover have "write_signatures_stmt part a t' ?d = (Ok 0, ?d)"
    using sigtab.ins_mono [of "map (new_sig_row a) part" ?rs ?t] assms
    by (simp add: write_signatures_stmt_def case_prod_beta image_mono)
  ultimately show ?thesis by (simp add: case_prod_beta)
qed

theorem write_page_idempotent_witness:
  "\<exists>new. signatures (snd (write_signatures_stmt [\<lparr>sig_block_time = Some 5, sig_signature = ''s2''\<rparr>] ''owner''
       (plain_turn 3) (small_db ''indexing'' True))) = signatures (small_db ''indexing'' True) @ new
     \<and> sig_key ` set new = {(''owner'', ''s2'')}"
proof -
  let ?p = "[\<lparr>sig_block_time = Some 5, sig_signature = ''s2''\<rparr>]" and ?d = "small_db ''indexing'' True"
  have sub: "set ?p \<subseteq> set ?p" by simp
  from write_page_idempotent [OF sub, of "''owner''" "plain_turn 3" ?d "plain_turn 4"]
  obtain new where "signatures (snd (write_signatures_stmt ?p ''owner'' (plain_turn 3) ?d)) = signatures ?d @ new"
    "sig_key ` set new = {(''owner'', sig_signature s) | s. s \<in> set ?p} - sig_key ` set (signatures ?d)"
    unfolding case_prod_beta Let_def by (elim conjE exE)
  then show ?thesis by (intro exI [of _ new]) (auto simp: small_db_def sig_key_def)
qed

end
