(* ===== verification/Transfers.thy ===== *)
theory Transfers
  imports RpcTypes
begin

text \<open>
  Transfer extraction of \<open>src/requests/types.rs\<close>: from the parsed instructions of a transaction,
  outer and inner, to the list of native and SPL transfer events. \<open>pow_f64\<close> is \<open>f64::powi\<close>, whose
  precision the standard library leaves open, so it is an argument.
\<close>

section \<open>Token accounts\<close>

type_synonym account_meta_map = "string \<rightharpoonup> token_account_meta"

text \<open>One balance entry: an account index off the key list is skipped.\<close>

definition insert_balance ::
    "string list \<Rightarrow> account_meta_map \<Rightarrow> token_balance \<Rightarrow> account_meta_map" where
  "insert_balance keys m balance =
     (let i = unat (tb_account_index balance)
      in if i < length keys
         then m(keys ! i \<mapsto>
                  \<lparr>tam_owner = tb_owner balance, tam_mint = tb_mint balance,
                   tam_decimals = uta_decimals (tb_ui_token_amount balance)\<rparr>)
         else m)"

definition token_account_meta_map :: "transaction_result \<Rightarrow> account_meta_map" where
  "token_account_meta_map tr =
     (let meta = ti_meta (tr_result tr)
      in foldl (insert_balance (all_account_keys tr)) Map.empty
           (meta_pre_token_balances meta @ meta_post_token_balances meta))"

section \<open>Native transfers\<close>

definition lamports_f64 :: "64 word \<Rightarrow> f64" where
  "lamports_f64 lamports =
     (let high = uint (drop_bit 32 lamports);
          low = uint (and lamports 0xFFFFFFFF)
      in f64_add (f64_mul (f64_of_int high) (f64_of_int 4294967296)) (f64_of_int low))"

definition parse_native_transfer ::
    "parsed_info \<Rightarrow> string \<Rightarrow> i32 \<Rightarrow> i32 option \<Rightarrow> token_transfer_change option" where
  "parse_native_transfer info transfer_type instruction_idx inner_idx =
     (case pi_lamports info of
        None \<Rightarrow> None
      | Some lamports \<Rightarrow>
          Some \<lparr>tt_token_mint = None, tt_token_program = None,
                tt_source_owner = pi_source info, tt_destination_owner = pi_destination info,
                tt_source_token_account = None, tt_destination_token_account = None,
                tt_amount_raw = uint lamports,
                tt_amount_ui = Some (f64_div (lamports_f64 lamports) (f64_of_int 1000000000)),
                tt_decimals = Some 9,
                tt_transfer_type = transfer_type, tt_asset_type = ''native'',
                tt_direction = ''unknown'', tt_authority = pi_authority info,
                tt_instruction_idx = Some instruction_idx, tt_inner_idx = inner_idx\<rparr>)"

section \<open>SPL transfers\<close>

text \<open>The amount, its display value, the decimals and the mint: from \<open>tokenAmount\<close> when it is there,
  else from \<open>amount\<close>; an amount that is no \<open>i128\<close> drops the transfer.\<close>

definition spl_amount ::
    "parsed_info \<Rightarrow> (i128 \<times> f64 option \<times> 8 word option \<times> string option) option" where
  "spl_amount info =
     (case pi_token_amount info of
        Some token_amount \<Rightarrow>
          (case parse_signed 128 (uta_amount token_amount) of
             None \<Rightarrow> None
           | Some amount_raw \<Rightarrow>
               Some (amount_raw, uta_ui_amount token_amount, Some (uta_decimals token_amount),
                     pi_mint info))
      | None \<Rightarrow>
          (case pi_amount info of
             Some amount_str \<Rightarrow>
               (case parse_signed 128 amount_str of
                  None \<Rightarrow> None
                | Some amount_raw \<Rightarrow>
                    Some (amount_raw, pi_ui_amount info, pi_decimals info, pi_mint info))
           | None \<Rightarrow> None))"

definition lookup_meta ::
    "account_meta_map \<Rightarrow> (token_account_meta \<Rightarrow> 'a) \<Rightarrow> string option \<Rightarrow> 'a option" where
  "lookup_meta m f addr = (case addr of None \<Rightarrow> None | Some a \<Rightarrow> map_option f (m a))"

definition parse_spl_transfer ::
    "(f64 \<Rightarrow> int \<Rightarrow> f64) \<Rightarrow> parsed_info \<Rightarrow> string \<Rightarrow> string option \<Rightarrow> account_meta_map \<Rightarrow>
     i32 \<Rightarrow> i32 option \<Rightarrow> token_transfer_change option" where
  "parse_spl_transfer pow_f64 info transfer_type program_id token_account_meta instruction_idx inner_idx =
     (case spl_amount info of
        None \<Rightarrow> None
      | Some (amount_raw, amount_ui, decimals, token_mint) \<Rightarrow>
          let destination = (if transfer_type = ''mint'' then or_else (pi_account info) (pi_destination info)
                             else pi_destination info);
              source = (if transfer_type = ''burn'' then or_else (pi_account info) (pi_source info)
                        else pi_source info);
              source_owner = lookup_meta token_account_meta tam_owner source;
              destination_owner = lookup_meta token_account_meta tam_owner destination;
              token_mint' = or_else token_mint
                 (or_else (lookup_meta token_account_meta tam_mint source)
                          (lookup_meta token_account_meta tam_mint destination));
              decimals' = or_else decimals
                 (or_else (lookup_meta token_account_meta tam_decimals source)
                          (lookup_meta token_account_meta tam_decimals destination));
              amount_ui' =
                (case amount_ui of
                   Some u \<Rightarrow> Some u
                 | None \<Rightarrow>
                     (case decimals' of
                        None \<Rightarrow> None
                      | Some d \<Rightarrow>
                          Some (f64_div (f64_of_int amount_raw) (pow_f64 (f64_of_int 10) (uint d)))))
          in Some \<lparr>tt_token_mint = token_mint', tt_token_program = program_id,
                   tt_source_owner = source_owner, tt_destination_owner = destination_owner,
                   tt_source_token_account = source, tt_destination_token_account = destination,
                   tt_amount_raw = amount_raw, tt_amount_ui = amount_ui', tt_decimals = decimals',
                   tt_transfer_type = transfer_type, tt_asset_type = ''spl'',
                   tt_direction = ''unknown'', tt_authority = pi_authority info,
                   tt_instruction_idx = Some instruction_idx, tt_inner_idx = inner_idx\<rparr>)"

section \<open>One instruction\<close>

definition relevant_transfer_types :: "string list" where
  "relevant_transfer_types =
     [''transfer'', ''transferChecked'', ''mintTo'', ''mintToChecked'', ''burn'', ''burnChecked'']"

definition normalize_transfer_type :: "string \<Rightarrow> string" where
  "normalize_transfer_type raw =
     (if raw \<in> {''transfer'', ''transferChecked''} then ''transfer''
      else if raw \<in> {''mintTo'', ''mintToChecked''} then ''mint''
      else if raw \<in> {''burn'', ''burnChecked''} then ''burn''
      else ''unknown'')"

definition system_program :: string where
  "system_program = ''11111111111111111111111111111111''"

definition token_program :: string where
  "token_program = ''TokenkegQfeZyiNwAJbNbGKPFXCWuBvf9Ss623VQ5DA''"

definition is_system_instruction :: "instruction \<Rightarrow> bool" where
  "is_system_instruction ins \<longleftrightarrow>
     ins_program_id ins = Some system_program \<or> ins_program ins = Some ''system''"

definition is_spl_instruction :: "instruction \<Rightarrow> bool" where
  "is_spl_instruction ins \<longleftrightarrow>
     ins_program_id ins = Some token_program \<or> ins_program ins = Some ''spl-token''
     \<or> ins_program ins = Some ''spl-token-2022''"

definition collect_token_transfer ::
    "(f64 \<Rightarrow> int \<Rightarrow> f64) \<Rightarrow> instruction \<Rightarrow> i32 \<Rightarrow> i32 option \<Rightarrow> account_meta_map \<Rightarrow>
     token_transfer_change list \<Rightarrow> token_transfer_change list" where
  "collect_token_transfer pow_f64 ins instruction_idx inner_idx token_account_meta out =
     (case ins_parsed ins of
        None \<Rightarrow> out
      | Some parsed \<Rightarrow>
          if instruction_type parsed \<notin> set relevant_transfer_types then out
          else
            let transfer_type = normalize_transfer_type (instruction_type parsed);
                transfer_change =
                  (if is_spl_instruction ins then
                     parse_spl_transfer pow_f64 (parsed_info_of parsed) transfer_type (ins_program_id ins)
                       token_account_meta instruction_idx inner_idx
                   else if is_system_instruction ins then
                     parse_native_transfer (parsed_info_of parsed) transfer_type instruction_idx inner_idx
                   else None)
            in (case transfer_change of Some change \<Rightarrow> out @ [change] | None \<Rightarrow> out))"

section \<open>A transaction\<close>

text \<open>The two loops of \<open>calculate_token_transfer\<close>, the position counted by the first argument.\<close>

fun collect_outer ::
    "(f64 \<Rightarrow> int \<Rightarrow> f64) \<Rightarrow> account_meta_map \<Rightarrow> nat \<Rightarrow> instruction list \<Rightarrow>
     token_transfer_change list \<Rightarrow> token_transfer_change list" where
  "collect_outer pow_f64 m idx [] out = out"
| "collect_outer pow_f64 m idx (ins # rest) out =
     collect_outer pow_f64 m (Suc idx) rest
       (collect_token_transfer pow_f64 ins (unwrap_or 0 (i32_try_from idx)) None m out)"

fun collect_inner ::
    "(f64 \<Rightarrow> int \<Rightarrow> f64) \<Rightarrow> account_meta_map \<Rightarrow> 16 word \<Rightarrow> nat \<Rightarrow> instruction list \<Rightarrow>
     token_transfer_change list \<Rightarrow> token_transfer_change list" where
  "collect_inner pow_f64 m index inner_idx [] out = out"
| "collect_inner pow_f64 m index inner_idx (ins # rest) out =
     collect_inner pow_f64 m index (Suc inner_idx) rest
       (collect_token_transfer pow_f64 ins (uint index)
          (Some (unwrap_or 0 (i32_try_from inner_idx))) m out)"

definition calculate_token_transfer ::
    "(f64 \<Rightarrow> int \<Rightarrow> f64) \<Rightarrow> transaction_result \<Rightarrow> transaction_result" where
  "calculate_token_transfer pow_f64 tr =
     (let m = token_account_meta_map tr;
          outer = collect_outer pow_f64 m 0 (ak_instructions (tx_message (ti_transaction (tr_result tr)))) [];
          all = foldl (\<lambda>out inner. collect_inner pow_f64 m (inner_index inner) 0 (inner_instrs inner) out)
                  outer (meta_inner_instructions (ti_meta (tr_result tr)))
      in tr\<lparr>tr_token_transfer_changes := all\<rparr>)"

section \<open>Lamports as a float\<close>

lemma low_half: "uint (and (l :: 64 word) 0xFFFFFFFF) = uint l mod 2 ^ 32"
proof -
  have m: "(0xFFFFFFFF :: 64 word) = mask 32" by (simp add: mask_eq_decr_exp)
  show ?thesis
    unfolding m by (simp only: take_bit_eq_mask [symmetric] unsigned_take_bit_eq) (simp add: take_bit_eq_mod)
qed

lemma high_half: "uint (drop_bit 32 (l :: 64 word)) = uint l div 2 ^ 32"
proof -
  have "take_bit 64 (uint l) = uint l"
    using uint_lt2p [of l] by (intro take_bit_int_eq_self) simp_all
  then show ?thesis by (simp only: unsigned_drop_bit_eq) (simp add: drop_bit_eq_div)
qed

lemma split_u64: "uint (l :: 64 word) = uint (drop_bit 32 l) * 4294967296 + uint (and l 0xFFFFFFFF)"
  by (simp only: low_half high_half) simp

lemma halves_small:
  shows "0 \<le> uint (drop_bit 32 (l :: 64 word))" and "uint (drop_bit 32 (l :: 64 word)) < 2 ^ 32"
    and "0 \<le> uint (and (l :: 64 word) 0xFFFFFFFF)" and "uint (and (l :: 64 word) 0xFFFFFFFF) < 2 ^ 32"
  using uint_lt2p [of l] unsigned_greater_eq [of l]
  by (simp_all only: low_half high_half) (auto simp: div_less_iff_less_mult pos_imp_zdiv_nonneg_iff)

lemma combine_halves:
  fixes h lo :: int
  assumes h: "0 \<le> h" "h < 2 ^ 32" and lo: "0 \<le> lo" "lo < 2 ^ 32"
  shows "f64_add (f64_mul (f64_of_int h) (f64_of_int 4294967296)) (f64_of_int lo)
       = f64_of_int (h * 4294967296 + lo)"
proof -
  have fl: "f64_of_int h = Finite (of_int h)" "f64_of_int lo = Finite (of_int lo)"
    "f64_of_int 4294967296 = Finite 4294967296"
    using h lo f64_of_int_small [of 4294967296] by (simp_all add: f64_of_int_small)
  have "round_rat (of_int h * 4294967296) = of_int h * 4294967296"
    by (rule round_rat_exact [of h 32]) (use h in simp_all)
  moreover have "\<bar>of_int h * 4294967296 :: rat\<bar> < 2 ^ 1024"
  proof -
    have "(of_int h :: rat) < of_int (2 ^ 32)" using h by (simp only: of_int_less_iff)
    then have "of_int h * 4294967296 < (2 ^ 1024 :: rat)" by simp
    moreover have "0 \<le> (of_int h * 4294967296 :: rat)" using h by simp
    ultimately show ?thesis by (simp only: abs_of_nonneg)
  qed
  ultimately have "f64_mul (f64_of_int h) (f64_of_int 4294967296) = Finite (of_int h * 4294967296)"
    unfolding fl by (simp only: f64_mul.simps round_f64_exact)
  then show ?thesis
    unfolding fl by (simp only: f64_add.simps f64_of_int_def) simp
qed

lemma lamports_f64_correct: "lamports_f64 l = f64_of_int (uint l)"
  unfolding lamports_f64_def Let_def
  by (simp only: combine_halves halves_small flip: split_u64)

section \<open>The events of a transaction\<close>

text \<open>Collecting only appends.\<close>

definition instruction_events ::
    "(f64 \<Rightarrow> int \<Rightarrow> f64) \<Rightarrow> account_meta_map \<Rightarrow> instruction \<Rightarrow> i32 \<Rightarrow> i32 option \<Rightarrow>
     token_transfer_change list" where
  "instruction_events pow_f64 m ins i j = collect_token_transfer pow_f64 ins i j m []"

lemma collect_token_transfer_append:
  "collect_token_transfer pow_f64 ins i j m out = out @ instruction_events pow_f64 m ins i j"
  by (simp add: collect_token_transfer_def instruction_events_def Let_def split: option.split)

lemma collect_outer_eq:
  "collect_outer pow_f64 m idx instrs out =
     out @ concat (map (\<lambda>(k, ins). instruction_events pow_f64 m ins (unwrap_or 0 (i32_try_from k)) None)
                       (enumerate idx instrs))"
  by (induction instrs arbitrary: idx out) (simp_all add: collect_token_transfer_append)

lemma collect_inner_eq:
  "collect_inner pow_f64 m index k instrs out =
     out @ concat (map (\<lambda>(k, ins). instruction_events pow_f64 m ins (uint index)
                                     (Some (unwrap_or 0 (i32_try_from k))))
                       (enumerate k instrs))"
  by (induction instrs arbitrary: k out) (simp_all add: collect_token_transfer_append)

definition outer_events ::
    "(f64 \<Rightarrow> int \<Rightarrow> f64) \<Rightarrow> transaction_result \<Rightarrow> token_transfer_change list" where
  "outer_events pow_f64 tr =
     concat (map (\<lambda>(k, ins). instruction_events pow_f64 (token_account_meta_map tr) ins
                               (unwrap_or 0 (i32_try_from k)) None)
                 (enumerate 0 (ak_instructions (tx_message (ti_transaction (tr_result tr))))))"

definition inner_events ::
    "(f64 \<Rightarrow> int \<Rightarrow> f64) \<Rightarrow> transaction_result \<Rightarrow> token_transfer_change list" where
  "inner_events pow_f64 tr =
     concat (map (\<lambda>inner.
       concat (map (\<lambda>(k, ins). instruction_events pow_f64 (token_account_meta_map tr) ins
                                 (uint (inner_index inner)) (Some (unwrap_or 0 (i32_try_from k))))
                   (enumerate 0 (inner_instrs inner))))
       (meta_inner_instructions (ti_meta (tr_result tr))))"

lemma foldl_append_concat:
  "(\<And>x out. f out x = out @ g x) \<Longrightarrow> foldl f out xs = out @ concat (map g xs)"
  by (induction xs arbitrary: out) simp_all

lemma calculate_events:
  "tr_token_transfer_changes (calculate_token_transfer pow_f64 tr) =
     outer_events pow_f64 tr @ inner_events pow_f64 tr"
  by (simp add: calculate_token_transfer_def outer_events_def inner_events_def Let_def
        collect_outer_eq collect_inner_eq foldl_append_concat)

lemma calculate_result [simp]:
  "tr_result (calculate_token_transfer pow_f64 tr) = tr_result tr"
  by (simp add: calculate_token_transfer_def Let_def)

lemma calculate_cong:
  "tr_result tr = tr_result tr' \<Longrightarrow>
   calculate_token_transfer pow_f64 tr = tr'\<lparr>tr_token_transfer_changes :=
       tr_token_transfer_changes (calculate_token_transfer pow_f64 tr')\<rparr>"
  by (cases tr; cases tr')
     (simp add: calculate_token_transfer_def token_account_meta_map_def all_account_keys_def Let_def)

end
