(* ===== verification/TransferProps.thy ===== *)
theory TransferProps
  imports Transfers
begin

text \<open>
  What transfer extraction guarantees: the shape of every event, the position it points to, that no
  two events of a transaction share a position, how owners, mints and decimals are resolved, and
  that extraction depends on the decoded transaction alone.
\<close>

section \<open>Shape of an event\<close>

definition transfer_change_ok :: "token_transfer_change \<Rightarrow> bool" where
  "transfer_change_ok c \<longleftrightarrow>
     tt_transfer_type c \<in> {''transfer'', ''mint'', ''burn''} \<and> tt_direction c = ''unknown''
     \<and> in_signed 128 (tt_amount_raw c)
     \<and> (if tt_asset_type c = ''native''
        then 0 \<le> tt_amount_raw c \<and> tt_amount_raw c < 2 ^ 64 \<and> tt_decimals c = Some 9
             \<and> tt_token_mint c = None \<and> tt_token_program c = None
             \<and> tt_source_token_account c = None \<and> tt_destination_token_account c = None
             \<and> tt_amount_ui c = Some (f64_div (f64_of_int (tt_amount_raw c)) (f64_of_int (10 ^ 9)))
        else tt_asset_type c = ''spl''
             \<and> (tt_decimals c \<noteq> None \<longrightarrow> tt_amount_ui c \<noteq> None))"

lemma normalize_relevant:
  "raw \<in> set relevant_transfer_types \<Longrightarrow>
   normalize_transfer_type raw \<in> {''transfer'', ''mint'', ''burn''}"
  by (auto simp: relevant_transfer_types_def normalize_transfer_type_def)

lemma u64_range: "0 \<le> uint (w :: 64 word) \<and> uint w < 2 ^ 64 \<and> in_signed 128 (uint w)"
proof -
  have "0 \<le> x \<and> x < 2 ^ 64 \<and> in_signed 128 x" if "0 \<le> x" "x < 2 ^ 64" for x :: int
    using that by (simp add: in_signed_def)
  moreover have "0 \<le> uint w" "uint w < 2 ^ 64" using uint_lt2p [of w] by simp_all
  ultimately show ?thesis by blast
qed

lemma parse_native_ok:
  assumes "parse_native_transfer info t i j = Some c" and "t \<in> {''transfer'', ''mint'', ''burn''}"
  shows "transfer_change_ok c"
proof -
  from assms(1) obtain l where "pi_lamports info = Some l"
    by (cases "pi_lamports info") (auto simp: parse_native_transfer_def)
  with assms u64_range [of l] show ?thesis
    by (auto simp: parse_native_transfer_def transfer_change_ok_def lamports_f64_correct)
qed

lemma spl_amount_range: "spl_amount info = Some (a, u, d, m) \<Longrightarrow> in_signed 128 a"
  by (auto simp: spl_amount_def split: option.splits dest: parse_signed_range)

lemma parse_spl_ok:
  assumes "parse_spl_transfer pow_f64 info t p m i j = Some c"
    and "t \<in> {''transfer'', ''mint'', ''burn''}"
  shows "transfer_change_ok c"
proof -
  from assms(1) obtain a u d mint where "spl_amount info = Some (a, u, d, mint)"
    by (cases "spl_amount info") (auto simp: parse_spl_transfer_def)
  with assms spl_amount_range [OF this] show ?thesis
    by (auto simp: parse_spl_transfer_def Let_def transfer_change_ok_def split: option.splits)
qed

lemma events_position:
  "c \<in> set (instruction_events pow_f64 m ins i j) \<Longrightarrow> tt_instruction_idx c = Some i \<and> tt_inner_idx c = j"
  by (auto simp: instruction_events_def collect_token_transfer_def parse_spl_transfer_def
        parse_native_transfer_def Let_def split: option.splits if_splits)

lemma events_from:
  assumes "c \<in> set (instruction_events pow_f64 m ins i j)"
  obtains parsed where "ins_parsed ins = Some parsed"
    and "instruction_type parsed \<in> set relevant_transfer_types"
    and "is_spl_instruction ins \<longrightarrow> parse_spl_transfer pow_f64 (parsed_info_of parsed)
           (normalize_transfer_type (instruction_type parsed)) (ins_program_id ins) m i j = Some c"
    and "\<not> is_spl_instruction ins \<longrightarrow> is_system_instruction ins \<and>
           parse_native_transfer (parsed_info_of parsed)
             (normalize_transfer_type (instruction_type parsed)) i j = Some c"
  using assms
  by (cases "ins_parsed ins")
     (auto simp: instruction_events_def collect_token_transfer_def Let_def
        split: option.split_asm if_split_asm)

lemma events_ok: "c \<in> set (instruction_events pow_f64 m ins i j) \<Longrightarrow> transfer_change_ok c"
  by (elim events_from) (metis parse_native_ok parse_spl_ok normalize_relevant)

lemma events_at_most_one: "length (instruction_events pow_f64 m ins i j) \<le> 1"
  by (simp add: instruction_events_def collect_token_transfer_def Let_def split: option.split)

lemma events_irrelevant:
  "ins_parsed ins = None \<or> (\<not> is_spl_instruction ins \<and> \<not> is_system_instruction ins) \<Longrightarrow>
   instruction_events pow_f64 m ins i j = []"
  by (auto simp: instruction_events_def collect_token_transfer_def Let_def split: option.split)

section \<open>Positions\<close>

definition position :: "token_transfer_change \<Rightarrow> i32 option \<times> i32 option" where
  "position c = (tt_instruction_idx c, tt_inner_idx c)"

text \<open>Lists of at most one element each whose positions come from distinct indices.\<close>

lemma distinct_concat_positions:
  assumes "\<And>x. x \<in> set xs \<Longrightarrow> distinct (map f (g x))"
    and "\<And>x y. x \<in> set xs \<Longrightarrow> y \<in> set xs \<Longrightarrow> x \<noteq> y \<Longrightarrow> f ` set (g x) \<inter> f ` set (g y) = {}"
    and "distinct xs"
  shows "distinct (map f (concat (map g xs)))"
  using assms
proof (induction xs)
  case (Cons x xs)
  have "distinct (map f (concat (map g xs)))"
    using Cons.prems by (intro Cons.IH) simp_all
  moreover have "f ` set (g x) \<inter> f ` set (concat (map g xs)) = {}"
    using Cons.prems(2) [of x] Cons.prems(3) by fastforce
  ultimately show ?case using Cons.prems(1) by simp
qed simp

lemma at_most_one_distinct: "length xs \<le> 1 \<Longrightarrow> distinct (map f xs)"
  by (cases xs) auto

lemma index_small:
  "k < n \<Longrightarrow> n \<le> 2 ^ 31 \<Longrightarrow> unwrap_or 0 (i32_try_from k) = int k"
  by (simp add: conv_simps)

lemma enumerate_distinct_positions:
  assumes "n + length instrs \<le> 2 ^ 31"
    and one: "\<And>k ins. length (g k ins) \<le> 1"
    and pos: "\<And>k ins c. c \<in> set (g k ins) \<Longrightarrow> f c = h (unwrap_or 0 (i32_try_from k))"
    and inj: "inj h"
  shows "distinct (map f (concat (map (\<lambda>(k, ins). g k ins) (enumerate n instrs))))"
proof (rule distinct_concat_positions)
  fix x assume "x \<in> set (enumerate n instrs)"
  then show "distinct (map f ((\<lambda>(k, ins). g k ins) x))"
    by (simp only: case_prod_beta at_most_one_distinct one)
next
  fix x y
  assume x: "x \<in> set (enumerate n instrs)" and y: "y \<in> set (enumerate n instrs)" and ne: "x \<noteq> y"
  obtain i a j b where xy: "x = (i, a)" "y = (j, b)" by (cases x; cases y)
  from x y ne have ij: "i \<noteq> j" "i < 2 ^ 31" "j < 2 ^ 31"
    using assms(1) by (auto simp: xy in_set_enumerate_eq)
  then have "unwrap_or 0 (i32_try_from i) \<noteq> unwrap_or 0 (i32_try_from j)"
    by (simp add: i32_try_from_def)
  then show "f ` set ((\<lambda>(k, ins). g k ins) x) \<inter> f ` set ((\<lambda>(k, ins). g k ins) y) = {}"
    using pos [of _ i a] pos [of _ j b] inj by (auto simp: xy dest: injD)
next
  show "distinct (enumerate n instrs)" by simp
qed

definition instruction_counts_ok :: "transaction_result \<Rightarrow> bool" where
  "instruction_counts_ok tr \<longleftrightarrow>
     length (ak_instructions (tx_message (ti_transaction (tr_result tr)))) \<le> 2 ^ 31
     \<and> list_all (\<lambda>inner. length (inner_instrs inner) \<le> 2 ^ 31)
                (meta_inner_instructions (ti_meta (tr_result tr)))
     \<and> distinct (map inner_index (meta_inner_instructions (ti_meta (tr_result tr))))"

lemma outer_distinct:
  assumes "instruction_counts_ok tr"
  shows "distinct (map position (outer_events pow_f64 tr))"
  unfolding outer_events_def
  by (rule enumerate_distinct_positions [where h = "\<lambda>i. (Some i, None)"])
     (use assms events_at_most_one in \<open>auto simp: instruction_counts_ok_def position_def inj_on_def dest: events_position\<close>)

lemma inner_block_position:
  "c \<in> set (concat (map (\<lambda>(k, ins). instruction_events pow_f64 m ins (uint i)
       (Some (unwrap_or 0 (i32_try_from k)))) (enumerate n instrs))) \<Longrightarrow>
   tt_instruction_idx c = Some (uint i)"
  by (auto dest: events_position)

lemma inner_distinct:
  assumes "instruction_counts_ok tr"
  shows "distinct (map position (inner_events pow_f64 tr))"
  unfolding inner_events_def
proof (rule distinct_concat_positions)
  let ?inners = "meta_inner_instructions (ti_meta (tr_result tr))"
  fix x assume "x \<in> set ?inners"
  then show "distinct (map position (concat (map (\<lambda>(k, ins).
      instruction_events pow_f64 (token_account_meta_map tr) ins (uint (inner_index x))
        (Some (unwrap_or 0 (i32_try_from k)))) (enumerate 0 (inner_instrs x)))))"
    by (intro enumerate_distinct_positions [where h = "\<lambda>k. (Some (uint (inner_index x)), Some k)"])
       (use assms events_at_most_one in \<open>auto simp: instruction_counts_ok_def position_def inj_on_def list_all_iff dest: events_position\<close>)
next
  fix x y
  assume xy: "x \<in> set (meta_inner_instructions (ti_meta (tr_result tr)))"
    "y \<in> set (meta_inner_instructions (ti_meta (tr_result tr)))" "x \<noteq> y"
  let ?block = "\<lambda>x. concat (map (\<lambda>(k, ins).
      instruction_events pow_f64 (token_account_meta_map tr) ins (uint (inner_index x))
        (Some (unwrap_or 0 (i32_try_from k)))) (enumerate 0 (inner_instrs x)))"
  from assms xy have "inner_index x \<noteq> inner_index y"
    by (auto simp: instruction_counts_ok_def distinct_map dest: inj_onD)
  then have "position c \<noteq> position d" if "c \<in> set (?block x)" "d \<in> set (?block y)" for c d
    using inner_block_position [OF that(1)] inner_block_position [OF that(2)]
    by (simp add: position_def word_uint_eq_iff)
  then show "position ` set (?block x) \<inter> position ` set (?block y) = {}" by blast
next
  show "distinct (meta_inner_instructions (ti_meta (tr_result tr)))"
    using assms by (auto simp: instruction_counts_ok_def distinct_map)
qed

lemma events_disjoint:
  "c \<in> set (outer_events pow_f64 tr) \<Longrightarrow> d \<in> set (inner_events pow_f64 tr) \<Longrightarrow> position c \<noteq> position d"
  by (force simp: outer_events_def inner_events_def position_def dest: events_position)

section \<open>Token accounts\<close>

text \<open>The balance entries that name an account, in order.\<close>

definition balances_of :: "transaction_result \<Rightarrow> string \<Rightarrow> token_balance list" where
  "balances_of tr account =
     filter (\<lambda>b. unat (tb_account_index b) < length (all_account_keys tr)
                 \<and> all_account_keys tr ! unat (tb_account_index b) = account)
       (meta_pre_token_balances (ti_meta (tr_result tr))
        @ meta_post_token_balances (ti_meta (tr_result tr)))"

definition balance_meta :: "token_balance \<Rightarrow> token_account_meta" where
  "balance_meta b =
     \<lparr>tam_owner = tb_owner b, tam_mint = tb_mint b, tam_decimals = uta_decimals (tb_ui_token_amount b)\<rparr>"

lemma foldl_insert_balance:
  "foldl (insert_balance keys) m bs k =
     (case filter (\<lambda>b. unat (tb_account_index b) < length keys \<and> keys ! unat (tb_account_index b) = k) bs of
        [] \<Rightarrow> m k
      | hits \<Rightarrow> Some (balance_meta (last hits)))"
  by (induction bs arbitrary: m)
     (auto simp: insert_balance_def balance_meta_def Let_def split: list.split)

lemma token_account_meta_map_lookup:
  "token_account_meta_map tr k =
     (case balances_of tr k of [] \<Rightarrow> None | hits \<Rightarrow> Some (balance_meta (last hits)))"
  by (simp add: token_account_meta_map_def balances_of_def Let_def foldl_insert_balance del: foldl_append)

section \<open>Properties\<close>

lemma calculate_set:
  "set (tr_token_transfer_changes (calculate_token_transfer pow_f64 tr)) =
     set (outer_events pow_f64 tr) \<union> set (inner_events pow_f64 tr)"
  by (simp add: calculate_events)

text \<open>C27: every event a transaction yields is well formed: its kind is transfer, mint or burn, its
  raw amount is an \<open>i128\<close>; a native event has a lamport amount, nine decimals, no mint and a display
  amount equal to the correctly rounded lamports divided by a billion; an SPL event with known
  decimals has a display amount.\<close>

theorem transfers_well_formed:
  "list_all transfer_change_ok (tr_token_transfer_changes (calculate_token_transfer pow_f64 tr))"
  by (auto simp: list_all_iff calculate_set outer_events_def inner_events_def dest: events_ok)

text \<open>C22: in a reply whose blocks of inner instructions have distinct indices, and whose counts of
  instructions are at most \<open>2 ^ 31\<close>, no two events of the transaction have the same position (instruction
  index and inner index), so the natural key of the transfer table never drops one of them in favour of
  another. The code checks neither; two blocks of one index can collide.\<close>

theorem transfer_positions_distinct:
  assumes "instruction_counts_ok tr"
  shows "distinct (map position (tr_token_transfer_changes (calculate_token_transfer pow_f64 tr)))"
proof -
  have "position ` set (outer_events pow_f64 tr) \<inter> position ` set (inner_events pow_f64 tr) = {}"
    using events_disjoint by blast
  with outer_distinct [OF assms] inner_distinct [OF assms] show ?thesis
    by (simp add: calculate_events)
qed

definition sample_transfer :: instruction where
  "sample_transfer = \<lparr>ins_parsed = Some \<lparr>parsed_info_of = \<lparr>pi_token_amount = None, pi_amount = None,
       pi_decimals = None, pi_ui_amount = None, pi_mint = None, pi_authority = None,
       pi_lamports = Some 5000, pi_source = Some ''a'', pi_destination = Some ''b'', pi_account = None\<rparr>,
     instruction_type = ''transfer''\<rparr>, ins_program = Some ''system'', ins_program_id = None\<rparr>"

definition sample_transaction :: transaction_result where
  "sample_transaction = \<lparr>tr_result = \<lparr>ti_block_time = 1800,
     ti_meta = \<lparr>meta_compute_units = 450, meta_fee = 5000, meta_err = JNull, meta_loaded_addresses = None,
       meta_inner_instructions = [\<lparr>inner_index = 0, inner_instrs = [sample_transfer]\<rparr>],
       meta_pre_token_balances = [], meta_post_token_balances = []\<rparr>,
     ti_transaction = \<lparr>tx_signatures = [''s1''], tx_message = \<lparr>ak_keys = [Pubkey ''a'', Pubkey ''b''],
       ak_instructions = [sample_transfer, sample_transfer], ak_header = None\<rparr>\<rparr>,
     ti_slot = 7\<rparr>, tr_token_transfer_changes = []\<rparr>"

theorem transfer_positions_distinct_witness:
  "distinct (map position (tr_token_transfer_changes
     (calculate_token_transfer (\<lambda>x _. x) sample_transaction)))"
  by (rule transfer_positions_distinct) (simp add: instruction_counts_ok_def sample_transaction_def)

text \<open>C28: what is known of a token account is what its last balance entry says, the post balances
  counting after the pre balances; entries whose index is off the key list count for no account.\<close>

theorem token_account_last_balance:
  "token_account_meta_map tr account =
     (if balances_of tr account = [] then None
      else Some (balance_meta (last (balances_of tr account))))"
  by (simp add: token_account_meta_map_lookup split: list.split)

text \<open>Extraction reads the decoded transaction only, so running it again, or on a result whose
  event list was already filled, gives the same events.\<close>

theorem calculate_idempotent:
  "calculate_token_transfer pow_f64 (tr\<lparr>tr_token_transfer_changes := old\<rparr>) =
     calculate_token_transfer pow_f64 tr
   \<and> calculate_token_transfer pow_f64 (calculate_token_transfer pow_f64 tr) =
     calculate_token_transfer pow_f64 tr"
  by (simp add: calculate_token_transfer_def token_account_meta_map_def all_account_keys_def Let_def)

end
