(* ===== verification/TransactionsDb.thy ===== *)
theory TransactionsDb
  imports SignaturesDb TransferProps
begin

text \<open>
  The two inserts of \<open>src/db/transactions.rs\<close>: the rows of the decoded transactions and of their
  transfer events. \<open>from_f64\<close> stands for \<open>BigDecimal::from_f64\<close>.
\<close>

section \<open>The rows\<close>

definition first_signature :: "transaction_info \<Rightarrow> string" where
  "first_signature tx =
     (case tx_signatures (ti_transaction tx) of [] \<Rightarrow> '''' | s # _ \<Rightarrow> s)"

definition new_tx_row :: "string \<Rightarrow> transaction_result \<Rightarrow> tx_row" where
  "new_tx_row tracked_owner tx =
     (let info = tr_result tx
      in \<lparr>xr_owner = tracked_owner, xr_signature = first_signature info, xr_slot = ti_slot info,
          xr_block_time = ti_block_time info, xr_err = meta_err (ti_meta info),
          xr_fee = meta_fee (ti_meta info), xr_compute_units = meta_compute_units (ti_meta info),
          xr_num_signers = num_signers tx, xr_num_instructions = num_instructions tx\<rparr>)"

definition new_transfer_row ::
    "(f64 \<Rightarrow> rat option) \<Rightarrow> string \<Rightarrow> transaction_info \<Rightarrow> token_transfer_change \<Rightarrow> transfer_row" where
  "new_transfer_row from_f64 tracked_owner tx transfer =
     \<lparr>fr_tracked_owner = tracked_owner, fr_signature = first_signature tx,
      fr_source_owner = tt_source_owner transfer,
      fr_destination_owner = tt_destination_owner transfer,
      fr_source_token_account = tt_source_token_account transfer,
      fr_destination_token_account = tt_destination_token_account transfer,
      fr_token_mint = tt_token_mint transfer, fr_token_program = tt_token_program transfer,
      fr_amount_raw = tt_amount_raw transfer,
      fr_amount_ui = Option.bind (tt_amount_ui transfer) from_f64,
      fr_decimals = map_option uint (tt_decimals transfer),
      fr_asset_type = tt_asset_type transfer, fr_transfer_type = tt_transfer_type transfer,
      fr_direction = tt_direction transfer, fr_instruction_idx = tt_instruction_idx transfer,
      fr_inner_idx = tt_inner_idx transfer, fr_authority = tt_authority transfer,
      fr_slot = ti_slot tx, fr_block_time = ti_block_time tx\<rparr>"

definition transfer_rows ::
    "transaction_result list \<Rightarrow> (transaction_info \<times> token_transfer_change) list" where
  "transfer_rows txs =
     concat (map (\<lambda>tx. map (\<lambda>transfer. (tr_result tx, transfer)) (tr_token_transfer_changes tx))
                 txs)"

section \<open>The statements\<close>

definition write_transaction_info_stmt ::
    "transaction_result list \<Rightarrow> string \<Rightarrow> turn \<Rightarrow> db \<Rightarrow> nat result \<times> db" where
  "write_transaction_info_stmt txs tracked_owner t d =
     (let (rows, n) = insert_on_conflict tx_key (transactions d) (map (new_tx_row tracked_owner) txs)
      in (Ok n, d\<lparr>transactions := rows\<rparr>))"

definition write_token_transfers_stmt ::
    "(f64 \<Rightarrow> rat option) \<Rightarrow> (transaction_info \<times> token_transfer_change) list \<Rightarrow> string \<Rightarrow> turn \<Rightarrow> db \<Rightarrow>
     nat result \<times> db" where
  "write_token_transfers_stmt from_f64 pairs tracked_owner t d =
     (let (rows, n) = insert_on_conflict (\<lambda>r. r) (token_transfers d)
              (map (\<lambda>(tx, transfer). new_transfer_row from_f64 tracked_owner tx transfer) pairs)
      in (Ok n, d\<lparr>token_transfers := rows\<rparr>))"

section \<open>Facts\<close>

lemma tx_key_new: "tx_key (new_tx_row a tx) = (a, first_signature (tr_result tx))"
  by (simp add: tx_key_def new_tx_row_def Let_def)

lemma write_txs_rows:
  "fst (write_transaction_info_stmt txs a t d) =
     Ok (snd (insert_on_conflict tx_key (transactions d) (map (new_tx_row a) txs)))"
  "snd (write_transaction_info_stmt txs a t d) =
     d\<lparr>transactions := fst (insert_on_conflict tx_key (transactions d) (map (new_tx_row a) txs))\<rparr>"
  by (simp_all add: write_transaction_info_stmt_def case_prod_beta)

lemma write_transfers_rows:
  "fst (write_token_transfers_stmt f ps a t d) =
     Ok (snd (insert_on_conflict (\<lambda>r. r) (token_transfers d) (map (\<lambda>(tx, c). new_transfer_row f a tx c) ps)))"
  "snd (write_token_transfers_stmt f ps a t d) =
     d\<lparr>token_transfers :=
         fst (insert_on_conflict (\<lambda>r. r) (token_transfers d) (map (\<lambda>(tx, c). new_transfer_row f a tx c) ps))\<rparr>"
  by (simp_all add: write_token_transfers_stmt_def case_prod_beta)

lemma write_txs_noop:
  "insert_on_conflict tx_key (transactions d) (map (new_tx_row a) txs) = (transactions d, 0) \<Longrightarrow>
   write_transaction_info_stmt txs a t d = (Ok 0, d)"
  by (simp add: write_transaction_info_stmt_def)

lemma write_transfers_noop:
  "insert_on_conflict (\<lambda>r. r) (token_transfers d) (map (\<lambda>(tx, c). new_transfer_row f a tx c) ps) =
     (token_transfers d, 0) \<Longrightarrow>
   write_token_transfers_stmt f ps a t d = (Ok 0, d)"
  by (simp add: write_token_transfers_stmt_def)

lemma write_txs_frame [frame_simps]:
  "processing_data (snd (write_transaction_info_stmt txs a t d)) = processing_data d"
  "next_job_id (snd (write_transaction_info_stmt txs a t d)) = next_job_id d"
  "signatures (snd (write_transaction_info_stmt txs a t d)) = signatures d"
  "token_transfers (snd (write_transaction_info_stmt txs a t d)) = token_transfers d"
  by (simp_all add: write_txs_rows)

lemma write_transfers_frame [frame_simps]:
  "processing_data (snd (write_token_transfers_stmt f ps a t d)) = processing_data d"
  "next_job_id (snd (write_token_transfers_stmt f ps a t d)) = next_job_id d"
  "signatures (snd (write_token_transfers_stmt f ps a t d)) = signatures d"
  "transactions (snd (write_token_transfers_stmt f ps a t d)) = transactions d"
  by (simp_all add: write_transfers_rows)

lemma write_txs_inv: "db_inv d \<Longrightarrow> db_inv (snd (write_transaction_info_stmt txs a t d))"
  by (simp add: db_inv_def write_txs_rows txtab.ins_unique)

lemma write_transfers_inv: "db_inv d \<Longrightarrow> db_inv (snd (write_token_transfers_stmt f ps a t d))"
  using trtab.ins_unique [of "token_transfers d"] by (simp add: db_inv_def write_transfers_rows)

lemma write_txs_present:
  "tx \<in> set txs \<Longrightarrow>
   (a, first_signature (tr_result tx)) \<in> tx_key ` set (transactions (snd (write_transaction_info_stmt txs a t d)))"
  using txtab.ins_present [of "new_tx_row a tx" "map (new_tx_row a) txs" "transactions d"]
  by (simp add: write_txs_rows tx_key_new)

lemma write_txs_keeps:
  "r \<in> set (transactions d) \<Longrightarrow> r \<in> set (transactions (snd (write_transaction_info_stmt txs a t d)))"
  by (simp add: write_txs_rows txtab.ins_keeps)

lemma write_transfers_set:
  "set (token_transfers (snd (write_token_transfers_stmt f ps a t d))) =
     set (token_transfers d) \<union> (\<lambda>(tx, c). new_transfer_row f a tx c) ` set ps"
  using trtab.ins_keys [of "token_transfers d" "map (\<lambda>(tx, c). new_transfer_row f a tx c) ps"]
  by (simp add: write_transfers_rows)

lemma transfer_rows_image:
  "(\<lambda>(tx, c). g tx c) ` set (transfer_rows txs) =
     {g (tr_result tx) c | tx c. tx \<in> set txs \<and> c \<in> set (tr_token_transfer_changes tx)}"
proof -
  have "(\<lambda>(tx, c). g tx c) ` set (transfer_rows txs) =
      (\<Union>tx \<in> set txs. (\<lambda>c. g (tr_result tx) c) ` set (tr_token_transfer_changes tx))"
    by (simp add: transfer_rows_def image_UN image_image)
  then show ?thesis by blast
qed

section \<open>Properties\<close>

text \<open>C25: storing a batch of transactions and their events adds exactly one row for each signature of
  the batch that the owner had no transaction of, each the row of a transaction of the batch, and
  exactly the events' rows that were not there, each once; every row there was stays; and storing any
  part of the batch again inserts nothing, so a retry after a lost acknowledgement duplicates no
  transaction or transfer.\<close>

theorem save_batch_idempotent:
  assumes "set part \<subseteq> set txs"
  shows "(let d1 = snd (write_transaction_info_stmt txs a t d);
              d2 = snd (write_token_transfers_stmt f (transfer_rows txs) a t' d1)
          in (\<exists>new. transactions d2 = transactions d @ new \<and> distinct (map tx_key new)
                \<and> set new \<subseteq> new_tx_row a ` set txs
                \<and> tx_key ` set new = {(a, first_signature (tr_result tx)) | tx. tx \<in> set txs}
                    - tx_key ` set (transactions d))
             \<and> (\<exists>new. token_transfers d2 = token_transfers d @ new \<and> distinct new
                \<and> set new = {new_transfer_row f a (tr_result tx) c | tx c. tx \<in> set txs
                    \<and> c \<in> set (tr_token_transfer_changes tx)} - set (token_transfers d))
             \<and> write_transaction_info_stmt part a t'' d2 = (Ok 0, d2)
             \<and> write_token_transfers_stmt f (transfer_rows part) a t'' d2 = (Ok 0, d2))"
proof -
  let ?d1 = "snd (write_transaction_info_stmt txs a t d)"
  let ?d2 = "snd (write_token_transfers_stmt f (transfer_rows txs) a t' ?d1)"
  have tx2: "transactions ?d2 = fst (insert_on_conflict tx_key (transactions d) (map (new_tx_row a) txs))"
    by (simp add: frame_simps write_txs_rows)
  have tr2: "token_transfers ?d2 = fst (insert_on_conflict (\<lambda>r. r) (token_transfers d)
      (map (\<lambda>(tx, c). new_transfer_row f a tx c) (transfer_rows txs)))"
    by (simp add: write_transfers_rows write_txs_rows)
  have txs: "\<exists>new. transactions ?d2 = transactions d @ new \<and> distinct (map tx_key new)
      \<and> set new \<subseteq> new_tx_row a ` set txs
      \<and> tx_key ` set new = {(a, first_signature (tr_result tx)) | tx. tx \<in> set txs} - tx_key ` set (transactions d)"
  proof (rule txtab.ins_added [of "transactions d" "map (new_tx_row a) txs"])
    fix new
    assume "fst (insert_on_conflict tx_key (transactions d) (map (new_tx_row a) txs)) = transactions d @ new"
      "distinct (map tx_key new)" "set new \<subseteq> set (map (new_tx_row a) txs)"
      "tx_key ` set new = tx_key ` set (map (new_tx_row a) txs) - tx_key ` set (transactions d)"
    moreover have "tx_key ` set (map (new_tx_row a) txs) = {(a, first_signature (tr_result tx)) | tx. tx \<in> set txs}"
      by (auto simp: tx_key_new image_iff)
    ultimately show ?thesis unfolding tx2 by (intro exI [of _ new]) (simp only: set_map)
  qed
  have transfers: "\<exists>new. token_transfers ?d2 = token_transfers d @ new \<and> distinct new
      \<and> set new = {new_transfer_row f a (tr_result tx) c | tx c. tx \<in> set txs
          \<and> c \<in> set (tr_token_transfer_changes tx)} - set (token_transfers d)"
    by (rule trtab.ins_added [of "token_transfers d" "map (\<lambda>(tx, c). new_transfer_row f a tx c) (transfer_rows txs)"])
       (auto simp only: tr2 set_map transfer_rows_image image_ident map_ident)
  have "write_transaction_info_stmt part a t'' ?d2 = (Ok 0, ?d2)"
    using txtab.ins_mono [of "map (new_tx_row a) part" "map (new_tx_row a) txs" "transactions d"] assms
    by (intro write_txs_noop) (simp only: tx2 set_map image_mono)
  moreover have "write_token_transfers_stmt f (transfer_rows part) a t'' ?d2 = (Ok 0, ?d2)"
  proof -
    have "set (transfer_rows part) \<subseteq> set (transfer_rows txs)"
      using assms by (auto simp: transfer_rows_def)
    then have "insert_on_conflict (\<lambda>r. r) (token_transfers ?d2)
        (map (\<lambda>(tx, c). new_transfer_row f a tx c) (transfer_rows part)) = (token_transfers ?d2, 0)"
      unfolding tr2 by (intro trtab.ins_mono) auto
    then show ?thesis by (rule write_transfers_noop)
  qed
  ultimately show ?thesis using txs transfers by (simp add: Let_def)
qed

theorem save_batch_idempotent_witness:
  "\<exists>d. map tx_key (transactions d) = [(''owner'', ''s1'')]
     \<and> write_transaction_info_stmt [sample_transaction] ''owner'' (plain_turn 4) d = (Ok 0, d)"
proof -
  have sig: "first_signature (tr_result sample_transaction) = ''s1''"
    by (simp add: first_signature_def sample_transaction_def)
  let ?txs = "[sample_transaction, sample_transaction]"
  define d2 where "d2 = snd (write_token_transfers_stmt (\<lambda>_. None) (transfer_rows ?txs)
      ''owner'' (plain_turn 4) (snd (write_transaction_info_stmt ?txs ''owner''
        (plain_turn 3) (small_db ''indexing'' False))))"
  have "set [sample_transaction] \<subseteq> set ?txs" by simp
  note spec = save_batch_idempotent [OF this, where a = "''owner''" and t = "plain_turn 3" and
      t' = "plain_turn 4" and t'' = "plain_turn 4" and d = "small_db ''indexing'' False" and
      f = "\<lambda>_. None", unfolded Let_def, folded d2_def]
  have none: "transactions (small_db ''indexing'' False) = []" by (simp add: small_db_def)
  from spec obtain new where new: "transactions d2 = transactions (small_db ''indexing'' False) @ new"
    "distinct (map tx_key new)" "tx_key ` set new =
       {(''owner'', first_signature (tr_result tx)) | tx. tx \<in> set ?txs} - tx_key ` set (transactions (small_db ''indexing'' False))"
    by (elim conjE exE)
  have "set (map tx_key new) = {(''owner'', ''s1'')}" using new(3) by (auto simp: none sig)
  with new(2) have "map tx_key new = [(''owner'', ''s1'')]"
    by (cases new) (auto simp: subset_singleton_iff)
  with new(1) have "map tx_key (transactions d2) = [(''owner'', ''s1'')]" by (simp add: none)
  moreover have "write_transaction_info_stmt [sample_transaction] ''owner'' (plain_turn 4) d2 = (Ok 0, d2)"
    using spec by (elim conjE)
  ultimately show ?thesis by (intro exI conjI)
qed

end
