(* ===== verification/SignatureWindow.thy ===== *)
theory SignatureWindow
  imports RpcTypes
begin

text \<open>
  The time-window filter of \<open>src/requests/client.rs\<close> (\<open>take_recent_signatures_at\<close>): the page of a
  \<open>getSignaturesForAddress\<close> answer, newest first, is cut at the first signature older than the
  window, and signatures without a block time are skipped.
\<close>

record recent_signatures_result =
  rs_signatures :: "signature_info list"
  rs_reached_cutoff :: bool
  rs_skipped_null_block_time :: usize

text \<open>The loop over the page with its three accumulators.\<close>

fun recent_loop ::
    "i64 \<Rightarrow> signature_info list \<Rightarrow> signature_info list \<Rightarrow> usize \<Rightarrow> recent_signatures_result" where
  "recent_loop cutoff_ts [] filtered skipped =
     \<lparr>rs_signatures = filtered, rs_reached_cutoff = False, rs_skipped_null_block_time = skipped\<rparr>"
| "recent_loop cutoff_ts (sig # sigs) filtered skipped =
     (case sig_block_time sig of
        Some ts \<Rightarrow>
          if cutoff_ts \<le> ts
          then recent_loop cutoff_ts sigs
                 (filtered @ [\<lparr>sig_block_time = sig_block_time sig, sig_signature = sig_signature sig\<rparr>])
                 skipped
          else \<lparr>rs_signatures = filtered, rs_reached_cutoff = True,
                rs_skipped_null_block_time = skipped\<rparr>
      | None \<Rightarrow> recent_loop cutoff_ts sigs filtered (Suc skipped))"

text \<open>\<open>i64\<close> subtraction in two's complement; \<open>requested_hours\<close> is an \<open>i16\<close>, so the product fits.\<close>

definition wrap_i64 :: "int \<Rightarrow> i64" where
  "wrap_i64 x = (x + 2 ^ 63) mod 2 ^ 64 - 2 ^ 63"

definition cutoff_of :: "i16 \<Rightarrow> i64 \<Rightarrow> i64" where
  "cutoff_of requested_hours now_ts = wrap_i64 (now_ts - max requested_hours 0 * 3600)"

definition take_recent_signatures_at ::
    "signature_info list \<Rightarrow> i16 \<Rightarrow> i64 \<Rightarrow> recent_signatures_result" where
  "take_recent_signatures_at signatures requested_hours now_ts =
     recent_loop (cutoff_of requested_hours now_ts) signatures [] 0"

section \<open>Facts\<close>

lemma wrap_i64_id: "in_signed 64 x \<Longrightarrow> wrap_i64 x = x"
  by (simp add: wrap_i64_def in_signed_def)

lemma cutoff_of_exact:
  assumes "in_signed 16 h" and "0 \<le> now" and "in_signed 64 now"
  shows "cutoff_of h now = now - max h 0 * 3600"
proof -
  have "in_signed 64 (now - max h 0 * 3600)"
    using assms by (simp add: in_signed_def max_def)
  then show ?thesis by (simp add: cutoff_of_def wrap_i64_id)
qed

text \<open>The prefix before the first signature older than the cutoff.\<close>

definition not_old :: "i64 \<Rightarrow> signature_info \<Rightarrow> bool" where
  "not_old cutoff sig = (case sig_block_time sig of Some ts \<Rightarrow> cutoff \<le> ts | None \<Rightarrow> True)"

definition has_time :: "signature_info \<Rightarrow> bool" where
  "has_time sig = (sig_block_time sig \<noteq> None)"

lemma recent_loop_eq:
  "recent_loop cutoff sigs filtered skipped =
     (let fresh = takeWhile (not_old cutoff) sigs
      in \<lparr>rs_signatures = filtered @ filter has_time fresh,
          rs_reached_cutoff = (length fresh < length sigs),
          rs_skipped_null_block_time = skipped + length (filter (\<lambda>s. \<not> has_time s) fresh)\<rparr>)"
  by (induction sigs arbitrary: filtered skipped)
     (auto simp: Let_def not_old_def has_time_def split: option.split)

lemma take_recent_eq:
  "take_recent_signatures_at sigs h now =
     (let fresh = takeWhile (not_old (cutoff_of h now)) sigs
      in \<lparr>rs_signatures = filter has_time fresh,
          rs_reached_cutoff = (length fresh < length sigs),
          rs_skipped_null_block_time = length (filter (\<lambda>s. \<not> has_time s) fresh)\<rparr>)"
  by (simp add: take_recent_signatures_at_def recent_loop_eq)

lemma takeWhile_all_iff: "length (takeWhile P xs) < length xs \<longleftrightarrow> (\<exists>x \<in> set xs. \<not> P x)"
  by (induction xs) auto

lemma takeWhile_full: "\<not> length (takeWhile P xs) < length xs \<Longrightarrow> takeWhile P xs = xs"
  by (metis takeWhile_all_iff takeWhile_eq_all_conv)

text \<open>Without a cutoff the page is accounted for: kept and skipped signatures add up.\<close>

lemma recent_counts:
  assumes "\<not> rs_reached_cutoff (take_recent_signatures_at sigs h now)"
  shows "length (rs_signatures (take_recent_signatures_at sigs h now))
         + rs_skipped_null_block_time (take_recent_signatures_at sigs h now) = length sigs"
proof -
  from assms have "takeWhile (not_old (cutoff_of h now)) sigs = sigs"
    by (intro takeWhile_full) (simp add: take_recent_eq Let_def)
  then show ?thesis by (simp only: take_recent_eq Let_def) (simp add: length_filter_split)
qed

section \<open>Properties\<close>

text \<open>A page is newest first when the block times it has do not increase.\<close>

fun newest_first :: "signature_info list \<Rightarrow> bool" where
  "newest_first [] = True"
| "newest_first (s # rest) =
     (newest_first rest \<and>
      (case sig_block_time s of
         None \<Rightarrow> True
       | Some ts \<Rightarrow>
           list_all (\<lambda>r. case sig_block_time r of None \<Rightarrow> True | Some tr \<Rightarrow> tr \<le> ts) rest))"

definition in_window :: "i64 \<Rightarrow> signature_info \<Rightarrow> bool" where
  "in_window cutoff s = (case sig_block_time s of None \<Rightarrow> False | Some ts \<Rightarrow> cutoff \<le> ts)"

lemma in_window_not_old: "in_window c s \<longleftrightarrow> has_time s \<and> not_old c s"
  by (simp add: in_window_def has_time_def not_old_def split: option.split)

lemma newest_first_filter:
  "newest_first sigs \<Longrightarrow> filter has_time (takeWhile (not_old c) sigs) = filter (in_window c) sigs"
proof (induction sigs)
  case (Cons s sigs)
  show ?case
  proof (cases "not_old c s")
    case True
    with Cons show ?thesis by (simp add: in_window_not_old)
  next
    case False
    then obtain ts where ts: "sig_block_time s = Some ts" "ts < c"
      by (auto simp: not_old_def split: option.splits)
    with Cons.prems have "list_all (\<lambda>r. \<not> in_window c r) sigs"
      by (fastforce simp: list_all_iff in_window_def split: option.splits)
    with False show ?thesis
      by (simp add: in_window_not_old list_all_iff filter_empty_conv)
  qed
qed simp

text \<open>C26: on a page that is newest first, stopping at the first old signature loses nothing: the
  result is every signature of the page whose block time is inside the window, in page order, and
  the cutoff flag says whether the page holds a signature older than the window.\<close>

theorem take_recent_complete:
  assumes "newest_first sigs"
  shows "rs_signatures (take_recent_signatures_at sigs h now) =
           filter (in_window (cutoff_of h now)) sigs
         \<and> rs_reached_cutoff (take_recent_signatures_at sigs h now) =
           list_ex (\<lambda>s. sig_block_time s \<noteq> None \<and> \<not> in_window (cutoff_of h now) s) sigs"
  using newest_first_filter [OF assms, of "cutoff_of h now"]
  by (auto simp: take_recent_eq Let_def takeWhile_all_iff list_ex_iff not_old_def in_window_def
        split: option.splits)

theorem take_recent_complete_witness:
  "newest_first [\<lparr>sig_block_time = Some 10000, sig_signature = ''a''\<rparr>,
                 \<lparr>sig_block_time = None, sig_signature = ''b''\<rparr>,
                 \<lparr>sig_block_time = Some 2800, sig_signature = ''c''\<rparr>]
   \<and> rs_signatures (take_recent_signatures_at
       [\<lparr>sig_block_time = Some 10000, sig_signature = ''a''\<rparr>,
        \<lparr>sig_block_time = None, sig_signature = ''b''\<rparr>,
        \<lparr>sig_block_time = Some 2800, sig_signature = ''c''\<rparr>] 1 10000)
     = [\<lparr>sig_block_time = Some 10000, sig_signature = ''a''\<rparr>]"
proof -
  let ?page = "[\<lparr>sig_block_time = Some 10000, sig_signature = ''a''\<rparr>,
                \<lparr>sig_block_time = None, sig_signature = ''b''\<rparr>,
                \<lparr>sig_block_time = Some 2800, sig_signature = ''c''\<rparr>] :: signature_info list"
  have h: "newest_first ?page" by simp
  with take_recent_complete [OF h, of 1 10000] show ?thesis
    by (simp add: in_window_def cutoff_of_def wrap_i64_def)
qed

text \<open>Whatever the order of the page, the filter returns the signatures with a block time among
  those before the first old one, counts the ones without, returns nothing older than the window
  and, when it does not report the cutoff, accounts for every signature of the page; negative hours
  count as zero.\<close>

theorem take_recent_accounts:
  "(let r = take_recent_signatures_at sigs h now; cutoff = cutoff_of h now in
      list_all (in_window cutoff) (rs_signatures r)
      \<and> subseq (rs_signatures r) sigs
      \<and> length (rs_signatures r) + rs_skipped_null_block_time r \<le> length sigs
      \<and> (rs_reached_cutoff r \<or>
           length (rs_signatures r) + rs_skipped_null_block_time r = length sigs)
      \<and> take_recent_signatures_at sigs (min h 0) now = take_recent_signatures_at sigs 0 now)"
proof -
  let ?r = "take_recent_signatures_at sigs h now" and ?c = "cutoff_of h now"
  let ?fresh = "takeWhile (not_old ?c) sigs"
  have sigs: "rs_signatures ?r = filter has_time ?fresh"
    and skip: "rs_skipped_null_block_time ?r = length (filter (\<lambda>s. \<not> has_time s) ?fresh)"
    by (simp_all add: take_recent_eq Let_def)
  have "list_all (in_window ?c) (rs_signatures ?r)"
    by (auto simp: sigs list_all_iff in_window_not_old dest: set_takeWhileD)
  moreover have "subseq (rs_signatures ?r) sigs"
    unfolding sigs by (meson prefix_imp_subseq subseq_filter_left subseq_order.trans takeWhile_is_prefix)
  moreover have "length (rs_signatures ?r) + rs_skipped_null_block_time ?r \<le> length sigs"
    by (simp add: sigs skip length_filter_split length_takeWhile_le)
  moreover have "take_recent_signatures_at sigs (min h 0) now = take_recent_signatures_at sigs 0 now"
    by (simp add: take_recent_signatures_at_def cutoff_of_def)
  ultimately show ?thesis
    using recent_counts [of sigs h now] by (auto simp: Let_def)
qed

end
