(* ===== verification/Backoff.thy ===== *)
theory Backoff
  imports Float64
begin

text \<open>
  The delay generator of \<open>src/backoff.rs\<close> on the modelled \<open>f64\<close>. The random sample of
  \<open>rand::random_range(0.0..half_delay)\<close> is a function argument: applied to the upper bound of the
  range it returns the sample drawn. The interface \<open>delay_source\<close> is what the retry loops of the
  client, of the database connection and of the workers rely on; the generator provides it.
\<close>

section \<open>The interface of a delay generator\<close>

locale delay_source =
  fixes next_delay :: "'r \<Rightarrow> 's \<Rightarrow> nanos \<times> 's"
    and reset_delay :: "'s \<Rightarrow> 's"
    and fair :: "'r \<Rightarrow> bool"
    and well :: "'s \<Rightarrow> bool"
    and cap :: "'s \<Rightarrow> nanos"
  assumes well_next: "well s \<Longrightarrow> fair r \<Longrightarrow> well (snd (next_delay r s))"
    and well_reset: "well s \<Longrightarrow> well (reset_delay s)"
    and cap_next: "well s \<Longrightarrow> fair r \<Longrightarrow> cap (snd (next_delay r s)) = cap s"
    and cap_reset: "well s \<Longrightarrow> cap (reset_delay s) = cap s"
    and delay_pos: "well s \<Longrightarrow> fair r \<Longrightarrow> 0 < fst (next_delay r s)"
    and delay_cap: "well s \<Longrightarrow> fair r \<Longrightarrow> fst (next_delay r s) \<le> cap s"
begin

text \<open>Drawing several delays in a row.\<close>

fun draw :: "'r list \<Rightarrow> 's \<Rightarrow> nanos list \<times> 's" where
  "draw [] s = ([], s)"
| "draw (r # rs) s =
     (let (d, s') = next_delay r s; (ds, s'') = draw rs s' in (d # ds, s''))"

lemma draw_Cons [simp]:
  "fst (draw (r # rs) s) = fst (next_delay r s) # fst (draw rs (snd (next_delay r s)))"
  "snd (draw (r # rs) s) = snd (draw rs (snd (next_delay r s)))"
  by (simp_all add: Let_def case_prod_beta)

declare draw.simps(2) [simp del]

lemma draw_well: "well s \<Longrightarrow> list_all fair rs \<Longrightarrow> well (snd (draw rs s)) \<and> cap (snd (draw rs s)) = cap s"
  by (induction rs arbitrary: s) (simp_all add: well_next cap_next)

lemma draw_bounds:
  "well s \<Longrightarrow> list_all fair rs \<Longrightarrow> list_all (\<lambda>d. 0 < d \<and> d \<le> cap s) (fst (draw rs s))"
proof (induction rs arbitrary: s)
  case (Cons r rs)
  then have "list_all (\<lambda>d. 0 < d \<and> d \<le> cap s) (fst (draw rs (snd (next_delay r s))))"
    using Cons.IH [of "snd (next_delay r s)"] by (simp add: well_next cap_next)
  with Cons.prems show ?case by (simp add: delay_pos delay_cap)
qed simp

lemma draw_length: "length (fst (draw rs s)) = length rs"
  by (induction rs arbitrary: s) simp_all

lemma draw_total:
  assumes "well s" and "list_all fair rs"
  shows "sum_list (fst (draw rs s)) \<le> length rs * cap s"
proof -
  have "sum_list ds \<le> length ds * c" if "list_all (\<lambda>d. 0 < d \<and> d \<le> c) ds" for ds and c :: nat
    using that by (induction ds) auto
  with draw_bounds [OF assms] show ?thesis by (metis draw_length)
qed

end

section \<open>The generator\<close>

record worker_backoff =
  wb_min :: f64
  wb_max :: f64
  wb_current :: f64
  wb_multiplier :: f64

definition new_backoff :: "f64 \<Rightarrow> f64 \<Rightarrow> f64 \<Rightarrow> worker_backoff" where
  "new_backoff min_delay max_delay multiplier =
     \<lparr>wb_min = min_delay, wb_max = max_delay, wb_current = min_delay,
      wb_multiplier = f64_max multiplier (Finite 1)\<rparr>"

definition reset_backoff :: "worker_backoff \<Rightarrow> worker_backoff" where
  "reset_backoff b = b\<lparr>wb_current := wb_min b\<rparr>"

text \<open>The duration of \<open>Duration::from_millis\<close> is given in nanoseconds.\<close>

definition step_and_get_sleep_duration ::
    "(f64 \<Rightarrow> f64) \<Rightarrow> worker_backoff \<Rightarrow> nanos \<times> worker_backoff" where
  "step_and_get_sleep_duration sample b =
     (let delay_ms = wb_current b;
          half_delay = f64_div delay_ms (Finite 2);
          jitter = (if f64_lt (Finite 0) half_delay then sample half_delay else Finite 0);
          sleep_ms = f64_max (f64_add half_delay jitter) (Finite 1)
      in (f64_as_u64 sleep_ms * 1000000,
          b\<lparr>wb_current :=
              f64_min (f64_max (f64_round (f64_mul delay_ms (wb_multiplier b))) (wb_min b))
                      (wb_max b)\<rparr>))"

text \<open>The documented behaviour of a sample from a non-empty half-open range.\<close>

definition sample_ok :: "(f64 \<Rightarrow> f64) \<Rightarrow> bool" where
  "sample_ok sample \<longleftrightarrow>
     (\<forall>h > 0. \<exists>j. sample (Finite h) = Finite j \<and> 0 \<le> j \<and> j < h)"

section \<open>Well-formed generators\<close>

text \<open>
  A generator built from whole numbers of milliseconds with
  \<open>1 \<le> min_delay \<le> max_delay \<le> 2 ^ 52\<close> and a finite multiplier of at least one; the program's
  three generators are of this kind.
\<close>

definition whole :: "rat \<Rightarrow> bool" where
  "whole q \<longleftrightarrow> of_int \<lfloor>q\<rfloor> = q"

definition backoff_inv :: "worker_backoff \<Rightarrow> bool" where
  "backoff_inv b =
     (case (wb_min b, wb_max b, wb_current b, wb_multiplier b) of
        (Finite lo, Finite hi, Finite c, Finite mu) \<Rightarrow>
          whole lo \<and> whole hi \<and> whole c \<and> 1 \<le> lo \<and> lo \<le> c \<and> c \<le> hi \<and> hi \<le> 2 ^ 52 \<and> 1 \<le> mu
      | _ \<Rightarrow> False)"

definition ms :: "f64 \<Rightarrow> int" where
  "ms x = (case x of Finite q \<Rightarrow> \<lfloor>q\<rfloor> | _ \<Rightarrow> 0)"

lemma ms_Finite [simp]: "ms (Finite (of_int m)) = m"
  by (simp add: ms_def)

lemma backoff_invE:
  assumes "backoff_inv b"
  obtains lo hi c mu where "wb_min b = Finite (of_int lo)" "wb_max b = Finite (of_int hi)"
    "wb_current b = Finite (of_int c)" "wb_multiplier b = Finite mu"
    "1 \<le> lo" "lo \<le> c" "c \<le> hi" "hi \<le> 2 ^ 52" "1 \<le> mu"
proof -
  from assms obtain l h k mu where e: "wb_min b = Finite l" "wb_max b = Finite h"
    "wb_current b = Finite k" "wb_multiplier b = Finite mu"
    and w: "l = of_int \<lfloor>l\<rfloor>" "h = of_int \<lfloor>h\<rfloor>" "k = of_int \<lfloor>k\<rfloor>"
    and o: "1 \<le> l" "l \<le> k" "k \<le> h" "h \<le> 2 ^ 52" "1 \<le> mu"
    by (auto simp: backoff_inv_def whole_def split: f64.splits)
  from o have "1 \<le> \<lfloor>l\<rfloor>" "\<lfloor>l\<rfloor> \<le> \<lfloor>k\<rfloor>" "\<lfloor>k\<rfloor> \<le> \<lfloor>h\<rfloor>" "\<lfloor>h\<rfloor> \<le> 2 ^ 52"
    using floor_mono [of h "2 ^ 52"] by (simp_all add: floor_mono)
  with e w o(5) show thesis by (metis that)
qed

lemma backoff_invI:
  assumes "wb_min b = Finite (of_int lo)" "wb_max b = Finite (of_int hi)"
    "wb_current b = Finite (of_int c)" "wb_multiplier b = Finite mu"
    "1 \<le> lo" "lo \<le> c" "c \<le> hi" "hi \<le> 2 ^ 52" "1 \<le> mu"
  shows "backoff_inv b"
proof -
  have "(of_int hi :: rat) \<le> of_int (2 ^ 52)" using assms(8) by (simp only: of_int_le_iff)
  with assms show ?thesis by (simp add: backoff_inv_def whole_def)
qed

text \<open>The next delay: at least the current one, clamped to the bounds, again whole.\<close>

lemma grow_delay:
  assumes c: "1 \<le> c" "c \<le> hi" "hi \<le> 2 ^ 52" and lo: "1 \<le> lo" "lo \<le> hi" and mu: "1 \<le> mu"
  shows "\<exists>n. f64_min (f64_max (f64_round (f64_mul (Finite (of_int c)) (Finite mu)))
                              (Finite (of_int lo))) (Finite (of_int hi)) = Finite (of_int n)
             \<and> min hi (max c lo) \<le> n \<and> n \<le> hi"
proof (cases "round_f64 (of_int c * mu)")
  case NaN
  then show ?thesis by (simp add: round_f64_def Let_def split: if_splits)
next
  case (Infinite s)
  have "round_rat (of_int c) \<le> round_rat (of_int c * mu)"
    using c(1) mu by (intro round_rat_mono) (simp add: mult_le_cancel_left1)
  moreover have "round_rat (of_int c) = of_int c" using c by (intro round_rat_int) simp
  ultimately have "0 \<le> round_rat (of_int c * mu)" using c(1) by (simp add: order_trans)
  then have "\<not> round_rat (of_int c * mu) \<le> - (2 ^ 1024)" by (simp add: not_le less_le_trans)
  with Infinite have "\<not> s" by (auto simp: round_f64_def Let_def split: if_splits)
  with Infinite show ?thesis
    using c lo by (auto simp: f64_max_def f64_min_def)
next
  case (Finite r)
  have "round_rat (of_int c) \<le> round_rat (of_int c * mu)"
    using c(1) mu by (intro round_rat_mono) (simp add: mult_le_cancel_left1)
  moreover have "round_rat (of_int c) = of_int c" using c by (intro round_rat_int) simp
  moreover from Finite have "r = round_rat (of_int c * mu)"
    by (auto simp: round_f64_def Let_def split: if_splits)
  ultimately have r: "of_int c \<le> r" by simp
  define n where "n = \<lfloor>r + 1 / 2\<rfloor>"
  have "c \<le> n" unfolding n_def using r by (simp add: le_floor_iff)
  moreover have "f64_round (Finite r) = Finite (of_int n)"
    using r c(1) by (simp add: n_def)
  ultimately show ?thesis
    using Finite c lo by (intro exI [of _ "min (max n lo) hi"]) auto
qed

text \<open>A step of a well-formed generator: the exact next delay and the bounds of the sleep, with the
  delays written in whole milliseconds.\<close>

lemma sleep_bounds:
  assumes c: "1 \<le> c" "c \<le> 2 ^ 52" and j: "0 \<le> j" "j < of_int c / 2"
  shows "\<exists>r. f64_max (f64_add (f64_div (Finite (of_int c)) (Finite 2)) (Finite j)) (Finite 1) = Finite r
             \<and> max 1 (of_int c / 2) \<le> r \<and> r \<le> of_int c"
proof -
  have half: "round_rat (of_int c / 2) = of_int c / 2"
    using c by (intro round_rat_half_int) simp
  have whole_c: "round_rat (of_int c) = of_int c"
    using c by (intro round_rat_int) simp
  have "(of_int c :: rat) \<le> of_int (2 ^ 52)" using c(2) by (simp only: of_int_le_iff)
  then have big: "(of_int c :: rat) \<le> 2 ^ 53" by simp
  have pos: "(1::rat) \<le> of_int c" using c(1) by simp
  obtain r where r: "round_f64 (of_int c / 2 + j) = Finite r" "of_int c / 2 \<le> r" "r \<le> of_int c"
    by (rule round_f64_between_small [OF half whole_c, of "of_int c / 2 + j"]) (use j big pos in auto)
  have "round_f64 (of_int c / 2) = Finite (of_int c / 2)"
    using half big pos by (intro round_f64_exact_small) simp_all
  then have "f64_max (f64_add (f64_div (Finite (of_int c)) (Finite 2)) (Finite j)) (Finite 1)
      = Finite (max r 1)"
    using r(1) by simp
  moreover have "max 1 (of_int c / 2) \<le> max r 1" "max r 1 \<le> of_int c"
    using r(2,3) pos by auto
  ultimately show ?thesis by blast
qed

lemma floor_ms_bounds:
  assumes "max 1 (of_int c / 2) \<le> r" and "r \<le> of_int c" and "c \<le> 2 ^ 52"
  shows "max 1 (c div 2) \<le> int (f64_as_u64 (Finite r))" and "int (f64_as_u64 (Finite r)) \<le> c"
proof -
  have "1 \<le> \<lfloor>r\<rfloor>" using assms(1) by simp
  moreover have "c div 2 \<le> \<lfloor>r\<rfloor>"
  proof -
    have "of_int (c div 2) \<le> (of_int c / 2 :: rat)"
      by (metis floor_divide_of_int_eq of_int_floor_le of_int_numeral)
    with assms(1) show ?thesis by (simp add: le_floor_iff)
  qed
  moreover have "\<lfloor>r\<rfloor> \<le> c" using assms(2) by (simp add: floor_le_iff)
  ultimately show "max 1 (c div 2) \<le> int (f64_as_u64 (Finite r))"
    and "int (f64_as_u64 (Finite r)) \<le> c"
    using assms(3) by auto
qed

lemma step_spec:
  assumes inv: "backoff_inv b" and ok: "sample_ok sample"
    and step: "step_and_get_sleep_duration sample b = (d, b')"
  shows "backoff_inv b'"
    and "wb_min b' = wb_min b" and "wb_max b' = wb_max b" and "wb_multiplier b' = wb_multiplier b"
    and "ms (wb_current b) \<le> ms (wb_current b')"
    and "max 1 (ms (wb_current b) div 2) * 1000000 \<le> int d"
    and "int d \<le> ms (wb_current b) * 1000000"
proof -
  from inv obtain lo hi c mu where b: "wb_min b = Finite (of_int lo)" "wb_max b = Finite (of_int hi)"
    "wb_current b = Finite (of_int c)" "wb_multiplier b = Finite mu"
    and o: "1 \<le> lo" "lo \<le> c" "c \<le> hi" "hi \<le> 2 ^ 52" "1 \<le> mu"
    by (rule backoff_invE)
  have c: "1 \<le> c" "c \<le> 2 ^ 52" using o by auto
  obtain n where n: "f64_min (f64_max (f64_round (f64_mul (Finite (of_int c)) (Finite mu)))
      (Finite (of_int lo))) (Finite (of_int hi)) = Finite (of_int n)" "min hi (max c lo) \<le> n" "n \<le> hi"
    using grow_delay [of c hi lo mu] o by auto
  have half: "f64_div (Finite (of_int c)) (Finite 2) = Finite (of_int c / 2)"
  proof -
    have "(of_int c :: rat) \<le> of_int (2 ^ 52)" using c(2) by (simp only: of_int_le_iff)
    then have "round_f64 (of_int c / 2) = Finite (of_int c / 2)"
      using c by (intro round_f64_exact_small round_rat_half_int) simp_all
    then show ?thesis by simp
  qed
  obtain j where j: "sample (Finite (of_int c / 2)) = Finite j" "0 \<le> j" "j < of_int c / 2"
    using ok [unfolded sample_ok_def, rule_format, of "of_int c / 2"] c(1) by auto
  from sleep_bounds [OF c j(2,3)] obtain r where
    r: "f64_max (f64_add (f64_div (Finite (of_int c)) (Finite 2)) (Finite j)) (Finite 1) = Finite r"
      "max 1 (of_int c / 2) \<le> r" "r \<le> of_int c" by blast
  have d: "d = f64_as_u64 (Finite r) * 1000000"
    and b': "b' = b\<lparr>wb_current := Finite (of_int n)\<rparr>"
    using step r(1) j(1) c(1) b n(1) half
    by (auto simp: step_and_get_sleep_duration_def Let_def simp del: f64_div.simps f64_as_u64.simps f64_mul.simps f64_round.simps f64_add.simps)
  show "backoff_inv b'"
    using b b' o n by (intro backoff_invI [of _ lo hi n mu]) auto
  show "wb_min b' = wb_min b" "wb_max b' = wb_max b" "wb_multiplier b' = wb_multiplier b"
    by (simp_all add: b')
  show "ms (wb_current b) \<le> ms (wb_current b')"
    using n o by (simp add: b b')
  show "max 1 (ms (wb_current b) div 2) * 1000000 \<le> int d" "int d \<le> ms (wb_current b) * 1000000"
    using floor_ms_bounds [OF r(2,3) c(2)] by (simp_all add: b d del: f64_as_u64.simps)
qed

interpretation wb: delay_source step_and_get_sleep_duration reset_backoff sample_ok backoff_inv
    "\<lambda>b. nat (ms (wb_max b)) * 1000000"
proof unfold_locales
  fix b r
  assume inv: "backoff_inv b"
  then obtain lo hi c mu where b: "wb_min b = Finite (of_int lo)" "wb_max b = Finite (of_int hi)"
    "wb_current b = Finite (of_int c)" "wb_multiplier b = Finite mu"
    and o: "1 \<le> lo" "lo \<le> c" "c \<le> hi" "hi \<le> 2 ^ 52" "1 \<le> mu"
    by (rule backoff_invE)
  show "backoff_inv (reset_backoff b)"
    using b o by (intro backoff_invI [of _ lo hi lo mu]) (auto simp: reset_backoff_def)
  show "nat (ms (wb_max (reset_backoff b))) * 1000000 = nat (ms (wb_max b)) * 1000000"
    by (simp add: reset_backoff_def)
  assume ok: "sample_ok r"
  obtain d b' where s: "step_and_get_sleep_duration r b = (d, b')" by fastforce
  note spec = step_spec [OF inv ok s]
  show "backoff_inv (snd (step_and_get_sleep_duration r b))" using spec(1) by (simp add: s)
  show "nat (ms (wb_max (snd (step_and_get_sleep_duration r b)))) * 1000000 = nat (ms (wb_max b)) * 1000000"
    using spec(3) by (simp add: s)
  show "0 < fst (step_and_get_sleep_duration r b)" using spec(6) by (simp add: s)
  show "fst (step_and_get_sleep_duration r b) \<le> nat (ms (wb_max b)) * 1000000"
    using spec(7) b o by (simp add: s)
qed

section \<open>The doubling schedule\<close>

text \<open>With a multiplier of two the delay of the \<open>k\<close>-th step is \<open>min max_delay (min_delay * 2 ^ k)\<close>
  exactly: no rounding error enters.\<close>

definition doubling :: "int \<Rightarrow> int \<Rightarrow> worker_backoff \<Rightarrow> int \<Rightarrow> bool" where
  "doubling lo hi b c \<longleftrightarrow>
     wb_min b = Finite (of_int lo) \<and> wb_max b = Finite (of_int hi) \<and> wb_current b = Finite (of_int c)
     \<and> wb_multiplier b = Finite 2 \<and> 1 \<le> lo \<and> lo \<le> c \<and> c \<le> hi \<and> hi \<le> 2 ^ 52"

lemma doubling_inv: "doubling lo hi b c \<Longrightarrow> backoff_inv b"
  unfolding doubling_def by (rule backoff_invI [of _ lo hi c 2]) auto

lemma doubling_new:
  "1 \<le> lo \<Longrightarrow> lo \<le> hi \<Longrightarrow> hi \<le> 2 ^ 52 \<Longrightarrow>
   doubling lo hi (new_backoff (Finite (of_int lo)) (Finite (of_int hi)) (Finite 2)) lo"
  by (simp add: doubling_def new_backoff_def)

lemma doubling_step:
  assumes "doubling lo hi b c"
  shows "doubling lo hi (snd (step_and_get_sleep_duration sample b)) (min hi (2 * c))"
proof -
  from assms have c: "1 \<le> c" "lo \<le> c" "c \<le> hi" "hi \<le> 2 ^ 52" by (auto simp: doubling_def)
  have "f64_mul (Finite (of_int c)) (Finite 2) = Finite (of_int (2 * c))"
    using round_f64_small_int [of "2 * c"] c by (simp add: mult.commute)
  moreover have "f64_round (Finite (of_int (2 * c))) = Finite (of_int (2 * c))"
    by (rule f64_round_of_int)
  ultimately show ?thesis
    using assms c
    by (auto simp: doubling_def step_and_get_sleep_duration_def Let_def min_def max_def
             simp del: f64_mul.simps f64_round.simps)
qed

lemma doubling_reset: "doubling lo hi b c \<Longrightarrow> doubling lo hi (reset_backoff b) lo"
  by (auto simp: doubling_def reset_backoff_def)

lemma doubling_draw:
  assumes "doubling lo hi b c" and "list_all sample_ok rs"
  shows "doubling lo hi (snd (wb.draw rs b)) (min hi (c * 2 ^ length rs))"
  using assms
proof (induction rs arbitrary: b c)
  case Nil
  then show ?case by (simp add: doubling_def min_def)
next
  case (Cons r rs)
  from Cons.IH [OF doubling_step [OF Cons.prems(1)]] Cons.prems(2)
  have "doubling lo hi (snd (wb.draw (r # rs) b)) (min hi (min hi (2 * c) * 2 ^ length rs))"
    by simp
  moreover have "min hi (min hi (2 * c) * 2 ^ length rs) = min hi (c * 2 ^ length (r # rs))"
  proof (cases "2 * c \<le> hi")
    case True
    then show ?thesis by (simp add: mult.assoc mult.left_commute)
  next
    case False
    have hi: "0 \<le> hi" and c: "0 \<le> c" using Cons.prems(1) by (auto simp: doubling_def)
    have "hi * 1 \<le> hi * 2 ^ length rs" using hi by (intro mult_left_mono) simp_all
    moreover have "hi * 2 ^ length rs \<le> (2 * c) * 2 ^ length rs"
      using False by (intro mult_right_mono) simp_all
    ultimately have "hi \<le> c * (2 * 2 ^ length rs)" by (metis mult.assoc mult.commute mult.right_neutral order_trans)
    with False \<open>hi * 1 \<le> hi * 2 ^ length rs\<close> show ?thesis by simp
  qed
  ultimately show ?case by simp
qed

section \<open>Properties\<close>

text \<open>C29: a fresh generator with a multiplier of two follows the capped doubling schedule whatever the
  random samples are: after \<open>n\<close> draws the next delay is jittered within the upper half of
  \<open>min max_delay (min_delay * 2 ^ n)\<close> milliseconds, and is never shorter than a millisecond.\<close>

theorem backoff_schedule:
  assumes "1 \<le> lo" and "lo \<le> hi" and "hi \<le> 2 ^ 52" and "list_all sample_ok rs" and "sample_ok r"
  shows "(let b = snd (wb.draw rs (new_backoff (Finite (of_int lo)) (Finite (of_int hi)) (Finite 2)));
              c = min hi (lo * 2 ^ length rs);
              d = int (fst (step_and_get_sleep_duration r b))
          in max 1 (c div 2) * 1000000 \<le> d \<and> d \<le> c * 1000000)"
proof -
  let ?b = "snd (wb.draw rs (new_backoff (Finite (of_int lo)) (Finite (of_int hi)) (Finite 2)))"
  have dbl: "doubling lo hi ?b (min hi (lo * 2 ^ length rs))"
    by (rule doubling_draw [OF doubling_new assms(4)]) (use assms in simp_all)
  obtain d b' where s: "step_and_get_sleep_duration r ?b = (d, b')" by fastforce
  have "ms (wb_current ?b) = min hi (lo * 2 ^ length rs)"
    using dbl by (simp only: doubling_def ms_Finite)
  with step_spec(6,7) [OF doubling_inv [OF dbl] assms(5) s] show ?thesis
    by (simp add: s Let_def)
qed

lemma sample_zero: "sample_ok (\<lambda>_. Finite 0)"
  by (simp add: sample_ok_def)

theorem backoff_schedule_witness:
  "(let b = snd (wb.draw [\<lambda>_. Finite 0, \<lambda>_. Finite 0]
              (new_backoff (Finite (of_int 500)) (Finite (of_int 10000)) (Finite 2)));
        d = int (fst (step_and_get_sleep_duration (\<lambda>_. Finite 0) b))
    in 1000000000 \<le> d \<and> d \<le> 2000000000)"
proof -
  have rs: "list_all sample_ok [\<lambda>_. Finite 0, \<lambda>_. Finite 0]" by (simp add: sample_zero)
  have c: "min 10000 (500 * 2 ^ length [\<lambda>_ :: f64. Finite 0, \<lambda>_. Finite 0]) = (2000 :: int)" by simp
  show ?thesis
    using backoff_schedule [OF _ _ _ rs sample_zero, of 500 10000] unfolding c Let_def
    by (simp del: of_int_numeral)
qed

end
