(* ===== verification/Logging.thy ===== *)
theory Logging
  imports RustText "HOL-Library.Monad_Syntax"
begin

text \<open>
  Address masking of \<open>src/logging.rs\<close>. The two slices of the source panic when an index is not a
  character boundary; the model returns \<open>None\<close> there.
\<close>

definition mask_keep :: nat where
  "mask_keep = 5"

definition mask_addr :: "string \<Rightarrow> string option" where
  "mask_addr addr =
     (if length addr \<le> mask_keep * 2 + 3 then Some addr
      else case str_slice addr 0 mask_keep of
             None \<Rightarrow> None
           | Some start \<Rightarrow>
               (case str_slice addr (length addr - mask_keep) (length addr) of
                  None \<Rightarrow> None
                | Some end' \<Rightarrow> Some (start @ ''...'' @ end')))"

text \<open>The fields of a log event are computed only if its level is enabled.\<close>

definition log_masked :: "bool \<Rightarrow> string \<Rightarrow> unit option" where
  "log_masked enabled address = (if enabled then do { masked \<leftarrow> mask_addr address; Some () } else Some ())"

text \<open>A step that gives no result but may panic.\<close>

lemma bind_unit_Some [simp]: "Option.bind (m :: unit option) f = Some x \<longleftrightarrow> m = Some () \<and> f () = Some x"
  by (cases m) simp_all


lemma log_masked_None: "log_masked enabled a = None \<longleftrightarrow> enabled \<and> mask_addr a = None"
  by (cases "mask_addr a") (simp_all add: log_masked_def)

lemma log_masked_runs [simp]: "\<not> enabled \<or> mask_addr a \<noteq> None \<Longrightarrow> log_masked enabled a = Some ()"
  by (auto simp: log_masked_def)

lemma mask_addr_short [simp]: "length addr \<le> 13 \<Longrightarrow> mask_addr addr = Some addr"
  by (simp add: mask_addr_def mask_keep_def)

lemma mask_addr_long:
  assumes "13 < length addr"
  shows "mask_addr addr =
    (if is_continuation (addr ! 5) \<or> is_continuation (addr ! (length addr - 5)) then None
     else Some (take 5 addr @ ''...'' @ drop (length addr - 5) addr))"
  using assms by (auto simp: mask_addr_def mask_keep_def str_slice_def is_char_boundary_def)

text \<open>Masking never panics on ASCII text, the text it returns is never longer than thirteen
  bytes unless the input was returned as it is, and it keeps the first and last five bytes of a
  long input and nothing else of it.\<close>

theorem mask_addr_ascii:
  assumes "list_all is_ascii addr"
  shows "mask_addr addr =
    Some (if length addr \<le> 13 then addr
          else take 5 addr @ ''...'' @ drop (length addr - 5) addr)"
proof (cases "length addr \<le> 13")
  case True
  then show ?thesis by simp
next
  case False
  with assms have "\<not> is_continuation (addr ! 5)" "\<not> is_continuation (addr ! (length addr - 5))"
    by (simp_all add: list_all_length ascii_not_continuation)
  with False show ?thesis by (simp add: mask_addr_long)
qed

theorem mask_addr_ascii_witness:
  "list_all is_ascii ''4UCSDDYGdcMUjmNJ''
   \<and> mask_addr ''4UCSDDYGdcMUjmNJ'' = Some ''4UCSD...UjmNJ''"
proof -
  have h: "list_all is_ascii ''4UCSDDYGdcMUjmNJ''" by (simp add: is_ascii_def)
  show ?thesis using h mask_addr_ascii [OF h] by simp
qed

end
