(* ===== verification/World.thy ===== *)
theory World
  imports TransactionsDb SignatureWindow Backoff Logging
begin

text \<open>
  What the asynchronous code runs against. The state of a task is a \<open>sys\<close> record: the tables, the
  shared rate-limit state of the client, the monotonic clock in nanoseconds and a value of an
  arbitrary type \<open>'w\<close> standing for the rest of the world. Libraries and services are functions of
  the record \<open>env\<close>. Other tasks act at the points where this one waits: before every statement
  (\<open>env_db_turn\<close>) and before every lock of the rate-limit state (\<open>env_others_limiter\<close>). A function
  that may not return gives an option; \<open>None\<close> means that it does not: its loop does not end, it
  waits for a permit that never comes, or it panics. \<open>env_acquire n\<close> takes one of the \<open>n\<close> permits the
  semaphore was made with. \<open>env_client_info\<close> and \<open>env_client_warn\<close> say which levels of the target
  \<open>client\<close> are logged, since only then the fields of an event are computed.
\<close>

section \<open>State\<close>

text \<open>The three mutexes of \<open>HeliusApi\<close>; an \<open>Instant\<close> is a number of nanoseconds.\<close>

record limiter =
  lm_backoff :: worker_backoff
  lm_until :: "nanos option"
  lm_last :: "nanos option"

record 'w sys =
  sy_world :: 'w
  sy_clock :: nanos
  sy_limiter :: limiter
  sy_db :: db

text \<open>Status and \<open>retry-after\<close> header of a reply; its body is read separately.\<close>

record http_head =
  hh_status :: nat
  hh_retry_after :: "string option"

record 'w env =
  env_elapse :: "'w \<Rightarrow> nanos \<times> 'w"
  env_utc_secs :: "'w \<Rightarrow> i64 \<times> 'w"
  env_sample :: "'w \<Rightarrow> (f64 \<Rightarrow> f64) \<times> 'w"
  env_others_limiter :: "limiter \<Rightarrow> 'w \<Rightarrow> limiter \<times> 'w"
  env_acquire :: "usize \<Rightarrow> 'w \<Rightarrow> (unit result \<times> 'w) option"
  env_send :: "string \<Rightarrow> json \<Rightarrow> 'w \<Rightarrow> http_head result \<times> 'w"
  env_text :: "'w \<Rightarrow> string result \<times> 'w"
  env_header_text :: "string \<Rightarrow> string option"
  env_rfc2822 :: "string \<Rightarrow> i64 option"
  env_show_status :: "nat \<Rightarrow> string"
  env_decode_signatures :: "string \<Rightarrow> signature_info list rpc_envelope result"
  env_decode_envelope :: "string \<Rightarrow> json rpc_envelope result"
  env_decode_transaction :: "json \<Rightarrow> transaction_info result"
  env_pow_f64 :: "f64 \<Rightarrow> int \<Rightarrow> f64"
  env_from_f64 :: "f64 \<Rightarrow> rat option"
  env_db_turn :: "db \<Rightarrow> 'w \<Rightarrow> db \<times> turn \<times> 'w"
  env_bind_limit :: nat
  env_client_info :: bool
  env_client_warn :: bool

section \<open>Time\<close>

definition elapse :: "'w env \<Rightarrow> 'w sys \<Rightarrow> 'w sys" where
  "elapse E s =
     (let (n, w) = env_elapse E (sy_world s) in s\<lparr>sy_world := w, sy_clock := sy_clock s + n\<rparr>)"

definition instant_now :: "'w env \<Rightarrow> 'w sys \<Rightarrow> nanos \<times> 'w sys" where
  "instant_now E s = (let s' = elapse E s in (sy_clock s', s'))"

definition sleep :: "'w env \<Rightarrow> nanos \<Rightarrow> 'w sys \<Rightarrow> 'w sys" where
  "sleep E d s = elapse E (s\<lparr>sy_clock := sy_clock s + d\<rparr>)"

definition utc_now :: "'w env \<Rightarrow> 'w sys \<Rightarrow> i64 \<times> 'w sys" where
  "utc_now E s = (let (t, w) = env_utc_secs E (sy_world s) in (t, s\<lparr>sy_world := w\<rparr>))"

section \<open>The shared state\<close>

definition limiter_turn :: "'w env \<Rightarrow> 'w sys \<Rightarrow> 'w sys" where
  "limiter_turn E s =
     (let (l, w) = env_others_limiter E (sy_limiter s) (sy_world s)
      in s\<lparr>sy_limiter := l, sy_world := w\<rparr>)"

definition run_db :: "'w env \<Rightarrow> (turn \<Rightarrow> db \<Rightarrow> 'a result \<times> db) \<Rightarrow> 'w sys \<Rightarrow> 'a result \<times> 'w sys" where
  "run_db E stmt s =
     (let (d, t, w) = env_db_turn E (sy_db s) (sy_world s);
          (r, d') = run_stmt t stmt d
      in (r, s\<lparr>sy_db := d', sy_world := w\<rparr>))"

text \<open>A statement with more parameters than the protocol allows is refused before it is sent.\<close>

definition run_db_bound ::
    "'w env \<Rightarrow> nat \<Rightarrow> (turn \<Rightarrow> db \<Rightarrow> 'a result \<times> db) \<Rightarrow> 'w sys \<Rightarrow> 'a result \<times> 'w sys" where
  "run_db_bound E binds stmt s =
     (if env_bind_limit E < binds then (Err ''too many bind parameters'', s) else run_db E stmt s)"

section \<open>Facts\<close>

lemma elapse_sel [simp]:
  "sy_limiter (elapse E s) = sy_limiter s" "sy_db (elapse E s) = sy_db s"
  by (simp_all add: elapse_def case_prod_beta Let_def)

lemma elapse_clock: "sy_clock s \<le> sy_clock (elapse E s)"
  by (simp add: elapse_def case_prod_beta Let_def)

lemma instant_now_sel [simp]:
  "fst (instant_now E s) = sy_clock (elapse E s)" "snd (instant_now E s) = elapse E s"
  by (simp_all add: instant_now_def Let_def)

lemma sleep_sel [simp]:
  "sy_limiter (sleep E d s) = sy_limiter s" "sy_db (sleep E d s) = sy_db s"
  by (simp_all add: sleep_def)

lemma sleep_clock: "sy_clock s + d \<le> sy_clock (sleep E d s)"
  using elapse_clock [of "s\<lparr>sy_clock := sy_clock s + d\<rparr>" E] by (simp add: sleep_def)

lemma utc_now_sel [simp]:
  "sy_limiter (snd (utc_now E s)) = sy_limiter s" "sy_db (snd (utc_now E s)) = sy_db s"
  "sy_clock (snd (utc_now E s)) = sy_clock s"
  by (simp_all add: utc_now_def case_prod_beta Let_def)

lemma limiter_turn_sel [simp]:
  "sy_clock (limiter_turn E s) = sy_clock s" "sy_db (limiter_turn E s) = sy_db s"
  by (simp_all add: limiter_turn_def case_prod_beta Let_def)

lemma run_db_sel [simp]:
  "sy_clock (snd (run_db E stmt s)) = sy_clock s" "sy_limiter (snd (run_db E stmt s)) = sy_limiter s"
  by (simp_all add: run_db_def case_prod_beta Let_def)

lemma run_db_Ok:
  assumes "run_db E stmt s = (Ok x, s')"
  obtains d t w where "env_db_turn E (sy_db s) (sy_world s) = (d, t, w)" and "t_fault t = None"
    and "stmt t d = (Ok x, sy_db s')"
proof -
  obtain d t w where e: "env_db_turn E (sy_db s) (sy_world s) = (d, t, w)" by (rule prod_cases3)
  obtain r d' where r: "run_stmt t stmt d = (r, d')" by fastforce
  from assms have "r = Ok x" "sy_db s' = d'" by (auto simp: run_db_def e r)
  with run_stmt_Ok [of t stmt d x d'] r e show ?thesis by (intro that) auto
qed

text \<open>Other tasks that leave the rate-limit state alone.\<close>

definition limiter_alone :: "'w env \<Rightarrow> bool" where
  "limiter_alone E \<longleftrightarrow> (\<forall>l w. fst (env_others_limiter E l w) = l)"

lemma limiter_turn_alone: "limiter_alone E \<Longrightarrow> sy_limiter (limiter_turn E s) = sy_limiter s"
  by (simp add: limiter_turn_def limiter_alone_def case_prod_beta Let_def)

text \<open>The documented behaviour of the random number generator.\<close>

definition samples_ok :: "'w env \<Rightarrow> bool" where
  "samples_ok E \<longleftrightarrow> (\<forall>w. sample_ok (fst (env_sample E w)))"

text \<open>A semaphore with permits gives one out in the end; one without has none to give.\<close>

definition grants_permits :: "'w env \<Rightarrow> bool" where
  "grants_permits E \<longleftrightarrow> (\<forall>n w. 0 < n \<longrightarrow> env_acquire E n w \<noteq> None)"

text \<open>Text that the client can log.\<close>

definition log_safe :: "'w env \<Rightarrow> string \<Rightarrow> bool" where
  "log_safe E text \<longleftrightarrow> (env_client_info E \<or> env_client_warn E \<longrightarrow> mask_addr text \<noteq> None)"

lemma log_safe_masked:
  assumes "log_safe E text"
  shows "log_masked (env_client_info E) text = Some ()" and "log_masked (env_client_warn E) text = Some ()"
  using assms by (auto simp: log_safe_def)

lemma maskable_log_safe: "mask_addr text \<noteq> None \<Longrightarrow> log_safe E text"
  by (simp add: log_safe_def)

section \<open>A scripted world\<close>

text \<open>A world whose service answers from a list of statuses and bodies (the first component; the second
  holds the replies given), whose database has no other clients and where no time passes but the time
  slept.\<close>

type_synonym script = "(nat \<times> string) list \<times> (nat \<times> string) list"

definition script_send :: "script \<Rightarrow> http_head result \<times> script" where
  "script_send w =
     (case fst w of
        [] \<Rightarrow> (Err ''connection closed'', ([], (0, []) # snd w))
      | r # rs \<Rightarrow> (Ok \<lparr>hh_status = fst r, hh_retry_after = None\<rparr>, (rs, r # snd w)))"

definition script_text :: "script \<Rightarrow> string result \<times> script" where
  "script_text w = (case snd w of [] \<Rightarrow> (Err ''no reply'', w) | r # _ \<Rightarrow> (Ok (snd r), w))"

definition script_turn :: turn where
  "script_turn = \<lparr>t_now = 3600000000, t_fault = None, t_locked_job = (\<lambda>_. False),
     t_locked_sig = (\<lambda>_ _. False), t_scan_jobs = (\<lambda>rows. rows), t_scan_sigs = (\<lambda>rows. rows)\<rparr>"

definition script_signatures :: "string \<Rightarrow> signature_info list rpc_envelope result" where
  "script_signatures body =
     (if body = ''limited'' then Ok \<lparr>env_result = Missing,
        env_error = Some \<lparr>err_code = - 32429, err_message = ''slow down''\<rparr>\<rparr>
      else if body = ''busy'' then Ok \<lparr>env_result = Missing,
        env_error = Some \<lparr>err_code = - 32000, err_message = ''busy''\<rparr>\<rparr>
      else if body = ''one'' then Ok \<lparr>env_result = Value [\<lparr>sig_block_time = Some 1800, sig_signature = ''s1''\<rparr>],
        env_error = None\<rparr>
      else if body = ''empty'' then Ok \<lparr>env_result = Value [], env_error = None\<rparr>
      else Err ''expected value'')"

definition script_envelope :: "string \<Rightarrow> json rpc_envelope result" where
  "script_envelope body =
     (if body = ''limited'' then Ok \<lparr>env_result = Missing,
        env_error = Some \<lparr>err_code = - 32429, err_message = ''slow down''\<rparr>\<rparr>
      else if body = ''busy'' then Ok \<lparr>env_result = Missing,
        env_error = Some \<lparr>err_code = - 32000, err_message = ''busy''\<rparr>\<rparr>
      else if body = ''null'' then Ok \<lparr>env_result = Null, env_error = None\<rparr>
      else if body = ''tx'' then Ok \<lparr>env_result = Value (JString ''tx''), env_error = None\<rparr>
      else Err ''expected value'')"

definition script_env :: "script env" where
  "script_env = \<lparr>
     env_elapse = (\<lambda>w. (0, w)), env_utc_secs = (\<lambda>w. (3600, w)), env_sample = (\<lambda>w. (\<lambda>_. Finite 0, w)),
     env_others_limiter = Pair, env_acquire = (\<lambda>n w. if n = 0 then None else Some (Ok (), w)),
     env_send = (\<lambda>_ _. script_send), env_text = script_text,
     env_header_text = Some, env_rfc2822 = (\<lambda>_. None), env_show_status = show_nat,
     env_decode_signatures = script_signatures, env_decode_envelope = script_envelope,
     env_decode_transaction = (\<lambda>_. Ok (tr_result sample_transaction)),
     env_pow_f64 = (\<lambda>x _. x), env_from_f64 = (\<lambda>_. None),
     env_db_turn = (\<lambda>d w. (d, script_turn, w)), env_bind_limit = 65535,
     env_client_info = True, env_client_warn = True\<rparr>"

definition script_start :: "db \<Rightarrow> (nat \<times> string) list \<Rightarrow> script sys" where
  "script_start d replies = \<lparr>sy_world = (replies, []), sy_clock = 0,
     sy_limiter = \<lparr>lm_backoff = new_backoff (Finite 500) (Finite 10000) (Finite 2), lm_until = None,
       lm_last = None\<rparr>,
     sy_db = d\<rparr>"

lemma script_env_sel [simp]:
  "env_elapse script_env = (\<lambda>w. (0, w))" "env_utc_secs script_env = (\<lambda>w. (3600, w))"
  "env_sample script_env = (\<lambda>w. (\<lambda>_. Finite 0, w))" "env_others_limiter script_env = Pair"
  "env_acquire script_env n w' = (if n = 0 then None else Some (Ok (), w'))"
  "env_client_info script_env" "env_client_warn script_env"
  "env_send script_env e b = script_send" "env_text script_env = script_text"
  "env_header_text script_env = Some" "env_rfc2822 script_env = (\<lambda>_. None)"
  "env_show_status script_env = show_nat"
  "env_decode_signatures script_env = script_signatures"
  "env_decode_envelope script_env = script_envelope"
  "env_decode_transaction script_env j = Ok (tr_result sample_transaction)"
  "env_pow_f64 script_env = (\<lambda>x _. x)" "env_from_f64 script_env = (\<lambda>_. None)"
  "env_db_turn script_env d w' = (d, script_turn, w')" "env_bind_limit script_env = 65535"
  by (simp_all add: script_env_def)

lemma script_alone [simp]: "limiter_alone script_env"
  by (simp add: limiter_alone_def)

lemma script_grants [simp]: "grants_permits script_env"
  by (simp add: grants_permits_def)

lemma script_samples [simp]: "samples_ok script_env"
  by (simp add: samples_ok_def sample_zero)

lemma script_turn_quiet [simp]: "quiet_turn script_turn" "fair_turn script_turn"
  by (simp_all add: script_turn_def quiet_turn_def fair_turn_def)

end
