(* ===== verification/Limiter.thy ===== *)
theory Limiter
  imports World
begin

text \<open>
  The client's handling of rate limits in \<open>src/requests/client.rs\<close>: waiting for a request slot,
  waiting out a cooldown, registering a rate-limit answer and forgetting the backoff when idle. Each
  lock of a mutex is preceded by a turn of the other tasks.
\<close>

section \<open>The client\<close>

record helius_api =
  ha_rpc_endpoint :: string
  ha_max_concurrent :: usize
  ha_max_rate_limit_retries :: usize

section \<open>The operations\<close>

partial_function (option) wait_for_rate_limit_cooldown :: "'w env \<Rightarrow> 'w sys \<Rightarrow> 'w sys option" where
  "wait_for_rate_limit_cooldown E s =
     (let s = limiter_turn E s
      in case lm_until (sy_limiter s) of
           None \<Rightarrow> Some s
         | Some until \<Rightarrow>
             let (now, s) = instant_now E s
             in if now < until
                then let (now', s) = instant_now E s
                     in wait_for_rate_limit_cooldown E (sleep E (until - now') s)
                else Some (s\<lparr>sy_limiter := (sy_limiter s)\<lparr>lm_until := None\<rparr>\<rparr>))"

text \<open>An \<open>Instant\<close> holds its seconds in an \<open>i64\<close>, which bounds \<open>checked_add\<close>.\<close>

definition instant_limit :: nanos where
  "instant_limit = 2 ^ 63 * 1000000000"

definition checked_add :: "nanos \<Rightarrow> nanos \<Rightarrow> nanos option" where
  "checked_add t d = (if t + d < instant_limit then Some (t + d) else None)"

definition draw_backoff :: "'w env \<Rightarrow> 'w sys \<Rightarrow> nanos \<times> 'w sys" where
  "draw_backoff E s =
     (let s = limiter_turn E s;
          (sample, w) = env_sample E (sy_world s);
          (delay, b) = step_and_get_sleep_duration sample (lm_backoff (sy_limiter s))
      in (delay, s\<lparr>sy_world := w, sy_limiter := (sy_limiter s)\<lparr>lm_backoff := b\<rparr>\<rparr>))"

definition register_rate_limit :: "'w env \<Rightarrow> nanos option \<Rightarrow> 'w sys \<Rightarrow> nanos \<times> 'w sys" where
  "register_rate_limit E retry_after s =
     (let (delay, s) =
            (case retry_after of
               Some d \<Rightarrow> if d \<noteq> 0 then (d, s) else draw_backoff E s
             | None \<Rightarrow> draw_backoff E s);
          (now, s) = instant_now E s;
          (until, s) =
            (case checked_add now delay of Some u \<Rightarrow> (u, s) | None \<Rightarrow> instant_now E s);
          s = limiter_turn E s;
          s = (if (case lm_until (sy_limiter s) of None \<Rightarrow> False | Some cur \<Rightarrow> until \<le> cur) then s
               else s\<lparr>sy_limiter := (sy_limiter s)\<lparr>lm_until := Some until\<rparr>\<rparr>);
          s = limiter_turn E s;
          (now, s) = instant_now E s
      in (delay, s\<lparr>sy_limiter := (sy_limiter s)\<lparr>lm_last := Some now\<rparr>\<rparr>))"

definition reset_rate_limit_backoff_if_idle :: "'w env \<Rightarrow> 'w sys \<Rightarrow> 'w sys" where
  "reset_rate_limit_backoff_if_idle E s =
     (let s = limiter_turn E s;
          (cooldown_active, s) =
            (case lm_until (sy_limiter s) of
               None \<Rightarrow> (False, s)
             | Some until \<Rightarrow>
                 let (now, s) = instant_now E s
                 in if now < until then (True, s)
                    else (False, s\<lparr>sy_limiter := (sy_limiter s)\<lparr>lm_until := None\<rparr>\<rparr>))
      in if cooldown_active then s
         else let s = limiter_turn E s;
                  (should_reset, s) =
                    (case lm_last (sy_limiter s) of
                       None \<Rightarrow> (True, s)
                     | Some stamp \<Rightarrow> let (now, s) = instant_now E s in (5000000000 < now - stamp, s))
              in if should_reset
                 then let s = limiter_turn E s
                      in s\<lparr>sy_limiter := (sy_limiter s)\<lparr>lm_backoff := reset_backoff (lm_backoff (sy_limiter s))\<rparr>\<rparr>
                 else s)"

text \<open>The semaphore was made with \<open>max_concurrent\<close> permits.\<close>

definition acquire_request_slot :: "'w env \<Rightarrow> helius_api \<Rightarrow> 'w sys \<Rightarrow> (unit result \<times> 'w sys) option" where
  "acquire_request_slot E api s = do {
     s \<leftarrow> wait_for_rate_limit_cooldown E s;
     (permit, w) \<leftarrow> env_acquire E (ha_max_concurrent api) (sy_world s);
     let s = elapse E (s\<lparr>sy_world := w\<rparr>);
     case permit of
       Err e \<Rightarrow> Some (Err e, s)
     | Ok _ \<Rightarrow> do {
         s \<leftarrow> wait_for_rate_limit_cooldown E s;
         Some (Ok (), elapse E s)
       }
   }"

section \<open>Waiting\<close>

lemma wait_done:
  assumes "wait_for_rate_limit_cooldown E s = Some s'"
  shows "lm_until (sy_limiter s') = None \<and> sy_clock s \<le> sy_clock s' \<and> sy_db s' = sy_db s"
proof (rule wait_for_rate_limit_cooldown.raw_induct [where P = "\<lambda>E s s'.
    lm_until (sy_limiter s') = None \<and> sy_clock s \<le> sy_clock s' \<and> sy_db s' = sy_db s", OF _ assms])
  fix wait :: "'w env \<Rightarrow> 'w sys \<Rightarrow> 'w sys option" and E s s'
  assume IH: "\<And>E s s'. wait E s = Some s' \<Longrightarrow>
      lm_until (sy_limiter s') = None \<and> sy_clock s \<le> sy_clock s' \<and> sy_db s' = sy_db s"
    and body: "(let s = limiter_turn E s
      in case lm_until (sy_limiter s) of
           None \<Rightarrow> Some s
         | Some until \<Rightarrow>
             let (now, s) = instant_now E s
             in if now < until
                then let (now', s) = instant_now E s in wait E (sleep E (until - now') s)
                else Some (s\<lparr>sy_limiter := (sy_limiter s)\<lparr>lm_until := None\<rparr>\<rparr>)) = Some s'"
  let ?s1 = "limiter_turn E s"
  show "lm_until (sy_limiter s') = None \<and> sy_clock s \<le> sy_clock s' \<and> sy_db s' = sy_db s"
  proof (cases "lm_until (sy_limiter ?s1)")
    case None
    with body show ?thesis by (auto simp: Let_def)
  next
    case (Some u)
    let ?s2 = "elapse E ?s1" and ?s3 = "elapse E (elapse E ?s1)"
    let ?s4 = "sleep E (u - sy_clock ?s3) ?s3"
    have le: "sy_clock s \<le> sy_clock ?s2" "sy_clock ?s2 \<le> sy_clock ?s3" "sy_clock ?s3 \<le> sy_clock ?s4"
      using elapse_clock [of ?s1 E] elapse_clock [of ?s2 E] sleep_clock [of ?s3 "u - sy_clock ?s3" E]
      by simp_all
    show ?thesis
    proof (cases "sy_clock ?s2 < u")
      case True
      with body Some have "wait E ?s4 = Some s'" by (simp add: Let_def case_prod_beta)
      from IH [OF this] le show ?thesis by simp
    next
      case False
      with body Some le show ?thesis by (auto simp: Let_def case_prod_beta)
    qed
  qed
qed

text \<open>A property of states that turns, time and the limiter itself keep is kept by waiting.\<close>

lemma wait_keeps:
  assumes turn: "\<And>s. f (limiter_turn E s) = f s" and time: "\<And>s. f (elapse E s) = f s"
    and rest: "\<And>s d. f (sleep E d s) = f s" and upd: "\<And>s l. f (s\<lparr>sy_limiter := l\<rparr>) = f s"
    and w: "wait_for_rate_limit_cooldown E s = Some s'"
  shows "f s' = f s"
proof -
  have "E' = E \<longrightarrow> f s' = f s" if "wait_for_rate_limit_cooldown E' s = Some s'" for E' s s'
  proof (rule wait_for_rate_limit_cooldown.raw_induct [where P = "\<lambda>E' s s'. E' = E \<longrightarrow> f s' = f s", OF _ that],
      intro impI, goal_cases)
    case (1 wait E' s s')
    then show ?case
      by (auto simp: Let_def case_prod_beta turn time rest upd split: option.splits if_splits)
  qed
  with w show ?thesis by simp
qed

lemmas wait_until = wait_done [THEN conjunct1]
lemmas wait_clock = wait_done [THEN conjunct2, THEN conjunct1]
lemmas wait_db = wait_done [THEN conjunct2, THEN conjunct2]

text \<open>The cooldown a state still has to wait out.\<close>

definition cooldown_end :: "'w sys \<Rightarrow> nanos" where
  "cooldown_end s = (case lm_until (sy_limiter s) of None \<Rightarrow> 0 | Some u \<Rightarrow> u)"

text \<open>Other tasks that are not rate limited for ever: past some moment they extend no cooldown.\<close>

definition cooldowns_bounded :: "'w env \<Rightarrow> bool" where
  "cooldowns_bounded E \<longleftrightarrow> (\<exists>last. \<forall>s. cooldown_end (limiter_turn E s) \<le> max (cooldown_end s) last)"

lemma alone_bounded: "limiter_alone E \<Longrightarrow> cooldowns_bounded E"
  by (simp add: cooldowns_bounded_def cooldown_end_def limiter_turn_alone)

lemma wait_returns:
  assumes "cooldowns_bounded E"
  obtains s' where "wait_for_rate_limit_cooldown E s = Some s'"
proof -
  obtain last where last: "\<And>s. cooldown_end (limiter_turn E s) \<le> max (cooldown_end s) last"
    using assms by (auto simp: cooldowns_bounded_def)
  have "\<exists>s'. wait_for_rate_limit_cooldown E s = Some s'" if "cooldown_end s \<le> n" "last \<le> n" for s n
    using that
  proof (induction "n - sy_clock s" arbitrary: s rule: less_induct)
    case less
    let ?s1 = "limiter_turn E s"
    let ?s3 = "elapse E (elapse E ?s1)"
    show ?case
    proof (cases "lm_until (sy_limiter ?s1)")
      case None
      then show ?thesis by (subst wait_for_rate_limit_cooldown.simps) (simp add: Let_def)
    next
      case (Some u)
      let ?s4 = "sleep E (u - sy_clock ?s3) ?s3"
      have u: "u \<le> n" "cooldown_end ?s4 = u"
        using last [of s] less.prems Some by (auto simp: cooldown_end_def le_max_iff_disj)
      show ?thesis
      proof (cases "sy_clock (elapse E ?s1) < u")
        case True
        have "sy_clock s \<le> sy_clock (elapse E ?s1)" "u \<le> sy_clock ?s4"
          using elapse_clock [of ?s1 E] sleep_clock [of ?s3 "u - sy_clock ?s3" E] by simp_all
        then have "\<exists>s'. wait_for_rate_limit_cooldown E ?s4 = Some s'"
          using True u less.prems(2) by (intro less.hyps) linarith+
        with Some True show ?thesis
          by (subst wait_for_rate_limit_cooldown.simps) (simp add: Let_def case_prod_beta)
      next
        case False
        with Some show ?thesis
          by (subst wait_for_rate_limit_cooldown.simps) (simp add: Let_def case_prod_beta)
      qed
    qed
  qed
  from this [of s "max (cooldown_end s) last"] that show thesis by auto
qed

section \<open>Registering\<close>

lemma draw_backoff_sel [simp]:
  "sy_clock (snd (draw_backoff E s)) = sy_clock s" "sy_db (snd (draw_backoff E s)) = sy_db s"
  "limiter_alone E \<Longrightarrow> lm_until (sy_limiter (snd (draw_backoff E s))) = lm_until (sy_limiter s)"
  by (simp_all add: draw_backoff_def Let_def case_prod_beta limiter_turn_alone)

text \<open>The steps of registering, by name.\<close>

definition chosen_delay :: "'w env \<Rightarrow> nanos option \<Rightarrow> 'w sys \<Rightarrow> nanos \<times> 'w sys" where
  "chosen_delay E retry_after s =
     (case retry_after of
        Some d \<Rightarrow> if d \<noteq> 0 then (d, s) else draw_backoff E s
      | None \<Rightarrow> draw_backoff E s)"

lemma chosen_delay_sel [simp]:
  "sy_clock (snd (chosen_delay E ra s)) = sy_clock s" "sy_db (snd (chosen_delay E ra s)) = sy_db s"
  "limiter_alone E \<Longrightarrow> lm_until (sy_limiter (snd (chosen_delay E ra s))) = lm_until (sy_limiter s)"
  by (simp_all add: chosen_delay_def split: option.split)

lemma register_delay: "fst (register_rate_limit E ra s) = fst (chosen_delay E ra s)"
  by (simp add: register_rate_limit_def chosen_delay_def [symmetric] Let_def case_prod_beta
        split: option.split)

lemma register_db [simp]: "sy_db (snd (register_rate_limit E ra s)) = sy_db s"
  by (simp add: register_rate_limit_def chosen_delay_def [symmetric] Let_def case_prod_beta
        split: option.split)

lemma register_clock_now:
  "sy_clock (elapse E (snd (chosen_delay E ra s))) \<le> sy_clock (snd (register_rate_limit E ra s))"
proof -
  define s1 where "s1 = snd (chosen_delay E ra s)"
  define s2 where "s2 = (case checked_add (sy_clock (elapse E s1)) (fst (chosen_delay E ra s)) of
      Some u \<Rightarrow> elapse E s1 | None \<Rightarrow> elapse E (elapse E s1))"
  have "sy_clock (elapse E s1) \<le> sy_clock s2"
    using elapse_clock [of "elapse E s1" E] by (simp add: s2_def split: option.split)
  also have "\<dots> \<le> sy_clock (snd (register_rate_limit E ra s))"
    by (simp add: register_rate_limit_def chosen_delay_def [symmetric] Let_def case_prod_beta s2_def
          s1_def split: option.split)
       (auto intro: order_trans [OF _ elapse_clock])
  finally show ?thesis unfolding s1_def .
qed

lemma register_clock: "sy_clock s \<le> sy_clock (snd (register_rate_limit E ra s))"
  using elapse_clock [of "snd (chosen_delay E ra s)" E] register_clock_now [of E ra s] by simp

text \<open>Other tasks that cut no cooldown short: they may lengthen it, and forget it once it has passed.\<close>

definition cooldown_respected :: "'w env \<Rightarrow> bool" where
  "cooldown_respected E \<longleftrightarrow> (\<forall>s. cooldown_end s \<le> max (cooldown_end (limiter_turn E s)) (sy_clock s))"

lemma alone_respected: "limiter_alone E \<Longrightarrow> cooldown_respected E"
  by (simp add: cooldown_respected_def cooldown_end_def limiter_turn_alone)

lemma turn_respected:
  assumes "cooldown_respected E"
  shows "n \<le> max (cooldown_end s) (sy_clock s) \<Longrightarrow> n \<le> max (cooldown_end (limiter_turn E s)) (sy_clock s)"
  using assms [unfolded cooldown_respected_def, rule_format, of s] by (simp add: le_max_iff_disj) (metis order_trans)

text \<open>Waiting outlasts the cooldown it started with.\<close>

lemma wait_outlasts:
  assumes "cooldown_respected E" and "wait_for_rate_limit_cooldown E s = Some s'"
  shows "cooldown_end s \<le> sy_clock s'"
proof -
  have "E' = E \<longrightarrow> cooldown_end s \<le> sy_clock s' \<and> sy_clock s \<le> sy_clock s'"
    if "wait_for_rate_limit_cooldown E' s = Some s'" for E' s s'
  proof (rule wait_for_rate_limit_cooldown.raw_induct [where
      P = "\<lambda>E' s s'. E' = E \<longrightarrow> cooldown_end s \<le> sy_clock s' \<and> sy_clock s \<le> sy_clock s'", OF _ that],
      intro impI, goal_cases)
    case (1 wait E' s s')
    let ?s1 = "limiter_turn E s"
    let ?s3 = "elapse E (elapse E ?s1)"
    have turn: "cooldown_end s \<le> max (cooldown_end ?s1) (sy_clock s)"
      using assms(1) by (simp add: cooldown_respected_def)
    have le: "sy_clock s \<le> sy_clock (elapse E ?s1)" "sy_clock (elapse E ?s1) \<le> sy_clock ?s3"
      using elapse_clock [of ?s1 E] elapse_clock [of "elapse E ?s1" E] by simp_all
    show ?case
    proof (cases "lm_until (sy_limiter ?s1)")
      case None
      with 1 turn show ?thesis by (auto simp: cooldown_end_def)
    next
      case (Some u)
      with turn have turn': "cooldown_end s \<le> max u (sy_clock s)" by (simp add: cooldown_end_def)
      let ?s4 = "sleep E (u - sy_clock ?s3) ?s3"
      show ?thesis
      proof (cases "sy_clock (elapse E ?s1) < u")
        case True
        with 1 Some have "wait E ?s4 = Some s'" by (simp add: Let_def case_prod_beta)
        with 1 have "cooldown_end ?s4 \<le> sy_clock s' \<and> sy_clock ?s4 \<le> sy_clock s'" by blast
        moreover have "cooldown_end ?s4 = u" using Some by (simp add: cooldown_end_def)
        moreover have "sy_clock ?s3 \<le> sy_clock ?s4" using sleep_clock [of ?s3 "u - sy_clock ?s3" E] by simp
        ultimately show ?thesis using turn' le by (auto simp: le_max_iff_disj)
      next
        case False
        with 1 Some have "s' = (elapse E ?s1)\<lparr>sy_limiter := (sy_limiter (elapse E ?s1))\<lparr>lm_until := None\<rparr>\<rparr>"
          by (auto simp: Let_def case_prod_beta)
        with False turn' le show ?thesis by simp
      qed
    qed
  qed
  with assms(2) show ?thesis by blast
qed

lemma register_until:
  assumes "cooldown_respected E"
    and "sy_clock (snd (register_rate_limit E ra s)) + fst (register_rate_limit E ra s) < instant_limit"
  shows "sy_clock s + fst (register_rate_limit E ra s) \<le>
     max (cooldown_end (snd (register_rate_limit E ra s))) (sy_clock (snd (register_rate_limit E ra s)))"
proof -
  let ?c = "chosen_delay E ra s"
  define s1 where "s1 = elapse E (snd ?c)"
  define u where "u = sy_clock s1 + fst ?c"
  define s2 where "s2 = limiter_turn E s1"
  define s3 where "s3 = (if (case lm_until (sy_limiter s2) of None \<Rightarrow> False | Some cur \<Rightarrow> u \<le> cur) then s2
      else s2\<lparr>sy_limiter := (sy_limiter s2)\<lparr>lm_until := Some u\<rparr>\<rparr>)"
  define s4 where "s4 = limiter_turn E s3"
  have "sy_clock s1 \<le> sy_clock (snd (register_rate_limit E ra s))"
    unfolding s1_def by (rule register_clock_now)
  with assms(2) have add: "checked_add (sy_clock s1) (fst ?c) = Some u"
    by (simp add: checked_add_def register_delay u_def)
  have result: "snd (register_rate_limit E ra s) =
      (elapse E s4)\<lparr>sy_limiter := (sy_limiter (elapse E s4))\<lparr>lm_last := Some (sy_clock (elapse E s4))\<rparr>\<rparr>"
    unfolding s4_def s3_def s2_def s1_def using add [unfolded s1_def]
    by (cases "lm_until (sy_limiter (limiter_turn E (elapse E (snd ?c))))")
       (simp_all add: register_rate_limit_def chosen_delay_def [symmetric] Let_def case_prod_beta)
  have "u \<le> cooldown_end s3" by (auto simp: s3_def cooldown_end_def split: option.split)
  then have "u \<le> max (cooldown_end s4) (sy_clock s3)"
    unfolding s4_def by (intro turn_respected [OF assms(1)]) simp
  moreover have "sy_clock s3 \<le> sy_clock (elapse E s4)"
    using elapse_clock [of s4 E] by (simp add: s4_def)
  moreover have "sy_clock s + fst ?c \<le> u"
    using elapse_clock [of "snd ?c" E] by (simp add: u_def s1_def)
  ultimately show ?thesis by (simp add: result register_delay cooldown_end_def)
qed

section \<open>Slots\<close>

lemma acquire_Some:
  assumes "acquire_request_slot E api s = Some (r, s')"
  shows "sy_db s' = sy_db s" and "sy_clock s \<le> sy_clock s'"
    and "r = Ok () \<Longrightarrow> lm_until (sy_limiter s') = None"
proof -
  from assms obtain s1 p w where s1: "wait_for_rate_limit_cooldown E s = Some s1"
    and p: "env_acquire E (ha_max_concurrent api) (sy_world s1) = Some (p, w)"
    by (auto simp: acquire_request_slot_def bind_eq_Some_conv)
  let ?s2 = "elapse E (s1\<lparr>sy_world := w\<rparr>)"
  have s2: "sy_clock s1 \<le> sy_clock ?s2" using elapse_clock [of "s1\<lparr>sy_world := w\<rparr>" E] by simp
  consider (refused) e where "r = Err e" "s' = ?s2"
    | (granted) s3 where "r = Ok ()" "wait_for_rate_limit_cooldown E ?s2 = Some s3" "s' = elapse E s3"
    using assms s1 p by (auto simp: acquire_request_slot_def bind_eq_Some_conv Let_def split: sum.splits)
  then have "sy_db s' = sy_db s \<and> sy_clock s \<le> sy_clock s' \<and> (r = Ok () \<longrightarrow> lm_until (sy_limiter s') = None)"
  proof cases
    case refused
    with wait_done [OF s1] s2 show ?thesis by simp
  next
    case granted
    with wait_done [OF s1] wait_done [OF granted(2)] s2 elapse_clock [of s3 E] show ?thesis by simp
  qed
  then show "sy_db s' = sy_db s" "sy_clock s \<le> sy_clock s'" "r = Ok () \<Longrightarrow> lm_until (sy_limiter s') = None"
    by simp_all
qed

lemma acquire_outlasts:
  assumes "cooldown_respected E" and "acquire_request_slot E api s = Some (r, s')"
  shows "cooldown_end s \<le> sy_clock s'"
proof -
  from assms(2) obtain s1 p w where s1: "wait_for_rate_limit_cooldown E s = Some s1"
    and p: "env_acquire E (ha_max_concurrent api) (sy_world s1) = Some (p, w)"
    by (auto simp: acquire_request_slot_def bind_eq_Some_conv)
  let ?s2 = "elapse E (s1\<lparr>sy_world := w\<rparr>)"
  have s2: "sy_clock s1 \<le> sy_clock ?s2" using elapse_clock [of "s1\<lparr>sy_world := w\<rparr>" E] by simp
  from assms(2) s1 p have "s' = ?s2 \<or> (\<exists>s3. wait_for_rate_limit_cooldown E ?s2 = Some s3 \<and> s' = elapse E s3)"
    by (auto simp: acquire_request_slot_def bind_eq_Some_conv Let_def split: sum.splits)
  with wait_outlasts [OF assms(1) s1] s2 show ?thesis using wait_clock elapse_clock by (metis order_trans)
qed

lemma acquire_returns:
  assumes "cooldowns_bounded E" and "grants_permits E" and "0 < ha_max_concurrent api"
  obtains r s' where "acquire_request_slot E api s = Some (r, s')"
proof -
  obtain s1 where s1: "wait_for_rate_limit_cooldown E s = Some s1"
    using wait_returns [OF assms(1)] by blast
  obtain p w where p: "env_acquire E (ha_max_concurrent api) (sy_world s1) = Some (p, w)"
    using assms(2,3) unfolding grants_permits_def by (metis not_None_eq surj_pair)
  obtain s3 where "wait_for_rate_limit_cooldown E (elapse E (s1\<lparr>sy_world := w\<rparr>)) = Some s3"
    using wait_returns [OF assms(1)] by blast
  with s1 p have "\<exists>x. acquire_request_slot E api s = Some x"
    by (simp add: acquire_request_slot_def Let_def split: sum.split)
  with that show thesis by auto
qed

text \<open>A semaphore without permits: no slot is ever acquired.\<close>

lemma no_permit_blocks:
  assumes "ha_max_concurrent api = 0" and "\<And>w. env_acquire E 0 w = None"
  shows "acquire_request_slot E api s = None"
  by (cases "wait_for_rate_limit_cooldown E s") (simp_all add: acquire_request_slot_def assms)

section \<open>Pacing\<close>

text \<open>A client that retries: register the answer, acquire the next slot.\<close>

fun retry_chain ::
    "('r \<Rightarrow> 's \<Rightarrow> nanos \<times> 's) \<Rightarrow> ('s \<Rightarrow> ('a \<times> 's) option) \<Rightarrow> 'r list \<Rightarrow> 's \<Rightarrow> (nanos list \<times> 's) option" where
  "retry_chain register acquire [] s = Some ([], s)"
| "retry_chain register acquire (r # rs) s =
     (let (d, s1) = register r s
      in case acquire s1 of
           None \<Rightarrow> None
         | Some (a, s2) \<Rightarrow>
             (case retry_chain register acquire rs s2 of None \<Rightarrow> None | Some (ds, s') \<Rightarrow> Some (d # ds, s')))"

text \<open>What the clients of a limiter rely on: registering and acquiring never turn the clock back, and a
  slot acquired after a delay was registered is granted no earlier than that delay asks for.\<close>

locale paced =
  fixes register :: "'r \<Rightarrow> 's \<Rightarrow> nanos \<times> 's"
    and acquire :: "'s \<Rightarrow> ('a \<times> 's) option"
    and clock :: "'s \<Rightarrow> nanos"
    and horizon :: nanos
  assumes register_mono: "clock s \<le> clock (snd (register r s))"
    and acquire_mono: "acquire s = Some (a, s') \<Longrightarrow> clock s \<le> clock s'"
    and acquire_paced: "register r s = (d, s1) \<Longrightarrow> clock s1 + d < horizon \<Longrightarrow>
        acquire s1 = Some (a, s2) \<Longrightarrow> clock s + d \<le> clock s2"
begin

lemma retries_mono: "retry_chain register acquire rs s = Some (ds, s') \<Longrightarrow> clock s \<le> clock s'"
proof (induction rs arbitrary: s ds)
  case (Cons r rs)
  obtain d s1 where r: "register r s = (d, s1)" by fastforce
  with Cons.prems obtain a s2 es where a: "acquire s1 = Some (a, s2)" "retry_chain register acquire rs s2 = Some (es, s')"
    by (auto split: option.splits)
  from register_mono [of s r] acquire_mono [OF a(1)] Cons.IH [OF a(2)] show ?case by (simp add: r)
qed simp

lemma retries_paced:
  assumes "retry_chain register acquire rs s = Some (ds, s')" and "clock s' + (\<Sum>d\<leftarrow>ds. d) < horizon"
  shows "clock s + (\<Sum>d\<leftarrow>ds. d) \<le> clock s'"
  using assms
proof (induction rs arbitrary: s ds)
  case (Cons r rs)
  obtain d s1 where r: "register r s = (d, s1)" by fastforce
  with Cons.prems(1) obtain a s2 es where a: "acquire s1 = Some (a, s2)" "retry_chain register acquire rs s2 = Some (es, s')"
    "ds = d # es" by (auto split: option.splits)
  have "clock s1 \<le> clock s'" using acquire_mono [OF a(1)] retries_mono [OF a(2)] by simp
  then have "clock s1 + d < horizon" using Cons.prems(2) a(3) by simp
  from acquire_paced [OF r this a(1)] have "clock s + d \<le> clock s2" .
  moreover have "clock s2 + (\<Sum>d\<leftarrow>es. d) \<le> clock s'"
    using Cons.IH [OF a(2)] Cons.prems(2) a(3) by simp
  ultimately show ?case by (simp add: a(3))
qed simp

end

text \<open>The task running alone.\<close>

definition alone :: "'w env \<Rightarrow> 'w env" where
  "alone E = E\<lparr>env_others_limiter := Pair\<rparr>"

lemma alone_alone [simp]: "limiter_alone (alone E)"
  by (simp add: alone_def limiter_alone_def)

lemma respected_paced:
  assumes "cooldown_respected E"
  shows "paced (register_rate_limit E) (acquire_request_slot E api) sy_clock instant_limit"
proof unfold_locales
  fix r s a s' d s1 s2
  show "sy_clock s \<le> sy_clock (snd (register_rate_limit E r s))" by (rule register_clock)
  show "acquire_request_slot E api s = Some (a, s') \<Longrightarrow> sy_clock s \<le> sy_clock s'"
    by (rule acquire_Some(2))
  assume r: "register_rate_limit E r s = (d, s1)" "sy_clock s1 + d < instant_limit"
    and a: "acquire_request_slot E api s1 = Some (a, s2)"
  from r have "sy_clock s + d \<le> max (cooldown_end s1) (sy_clock s1)"
    using register_until [OF assms, of r s] by simp
  with acquire_outlasts [OF assms a] acquire_Some(2) [OF a] show "sy_clock s + d \<le> sy_clock s2" by simp
qed

text \<open>A task alone is one instance.\<close>

interpretation helius: paced "register_rate_limit (alone E)" "acquire_request_slot (alone E) api" sy_clock
    instant_limit for E :: "'w env" and api
  by (rule respected_paced [OF alone_respected [OF alone_alone]])

section \<open>Properties\<close>

text \<open>C34: rate limits are respected: along any chain of registered rate-limit answers, each followed
  by acquiring the next request slot, at least the sum of the registered delays passes, as long as the
  other tasks cut no cooldown short that has not passed, and time stays below the last \<open>Instant\<close>.\<close>

theorem rate_limits_respected:
  assumes "cooldown_respected E"
    and "retry_chain (register_rate_limit E) (acquire_request_slot E api) answers s = Some (delays, s')"
    and "sy_clock s' + (\<Sum>d\<leftarrow>delays. d) < instant_limit"
  shows "sy_clock s + (\<Sum>d\<leftarrow>delays. d) \<le> sy_clock s'"
  by (rule paced.retries_paced [OF respected_paced [OF assms(1)] assms(2,3)])

lemma script_alone_eq [simp]: "alone script_env = script_env"
  by (simp add: alone_def script_env_def)

lemma elapse_script [simp]: "elapse script_env s = s"
  by (simp add: elapse_def)

lemma limiter_turn_script [simp]: "limiter_turn script_env s = s"
  by (simp add: limiter_turn_def)

lemma instant_now_script [simp]: "instant_now script_env s = (sy_clock s, s)"
  by (simp add: instant_now_def Let_def)

lemma sleep_script [simp]: "sleep script_env d s = s\<lparr>sy_clock := sy_clock s + d\<rparr>"
  by (simp add: sleep_def)

lemma wait_script:
  "wait_for_rate_limit_cooldown script_env s =
     (case lm_until (sy_limiter s) of
        None \<Rightarrow> Some s
      | Some u \<Rightarrow> Some (s\<lparr>sy_clock := max u (sy_clock s), sy_limiter := (sy_limiter s)\<lparr>lm_until := None\<rparr>\<rparr>))"
  by (subst wait_for_rate_limit_cooldown.simps, subst wait_for_rate_limit_cooldown.simps)
     (simp add: Let_def max_def split: option.split)

lemma acquire_script:
  "acquire_request_slot script_env api s =
     (if ha_max_concurrent api = 0 then None else case lm_until (sy_limiter s) of
        None \<Rightarrow> Some (Ok (), s)
      | Some u \<Rightarrow> Some (Ok (), s\<lparr>sy_clock := max u (sy_clock s),
                                sy_limiter := (sy_limiter s)\<lparr>lm_until := None\<rparr>\<rparr>))"
  by (simp add: acquire_request_slot_def wait_script Let_def split: option.split)

definition script_api :: helius_api where
  "script_api = \<lparr>ha_rpc_endpoint = ''http://rpc'', ha_max_concurrent = 2, ha_max_rate_limit_retries = 1\<rparr>"

lemma script_api_permits [simp]: "ha_max_concurrent script_api = 2"
  by (simp add: script_api_def)

theorem rate_limits_respected_witness:
  "\<exists>delays s'. retry_chain (register_rate_limit script_env) (acquire_request_slot script_env script_api)
       [Some 7000000000, Some 2000000000] (script_start (small_db ''indexing'' False) []) = Some (delays, s')
     \<and> 9000000000 \<le> sy_clock s'"
proof -
  let ?s = "script_start (small_db ''indexing'' False) []"
  obtain s' where s': "retry_chain (register_rate_limit script_env) (acquire_request_slot script_env script_api)
      [Some 7000000000, Some 2000000000] ?s = Some ([7000000000, 2000000000], s')" "sy_clock s' = 9000000000"
    by (simp add: register_rate_limit_def checked_add_def instant_limit_def acquire_script Let_def
        script_start_def)
  from rate_limits_respected [OF alone_respected [OF script_alone] s'(1)] s' show ?thesis
    by (simp add: instant_limit_def script_start_def)
qed

text \<open>The delay registered for a rate-limit answer is the server's own unless it is absent or zero,
  in which case it comes from the backoff: positive and at most ten seconds, whatever other tasks do
  to the generator in between as long as they keep it well formed.\<close>

theorem registered_delay:
  assumes "samples_ok E" and "backoff_inv (lm_backoff (sy_limiter (limiter_turn E s)))"
    and "ms (wb_max (lm_backoff (sy_limiter (limiter_turn E s)))) = 10000"
  shows "(let d = fst (register_rate_limit E retry_after s)
          in (case retry_after of
                Some h \<Rightarrow> if h = 0 then 0 < d \<and> d \<le> 10000000000 else d = h
              | None \<Rightarrow> 0 < d \<and> d \<le> 10000000000))"
proof -
  let ?b = "lm_backoff (sy_limiter (limiter_turn E s))"
  have "0 < fst (draw_backoff E s) \<and> fst (draw_backoff E s) \<le> 10000000000"
    using assms wb.delay_pos [of ?b] wb.delay_cap [of ?b]
    by (simp add: draw_backoff_def Let_def case_prod_beta samples_ok_def)
  then show ?thesis
    by (simp add: register_delay chosen_delay_def Let_def split: option.split)
qed

theorem registered_delay_witness:
  "0 < fst (register_rate_limit script_env None (script_start (small_db ''indexing'' False) []))"
proof -
  let ?s = "script_start (small_db ''indexing'' False) []"
  have b: "new_backoff (Finite (of_int 500)) (Finite (of_int 10000)) (Finite 2) =
      lm_backoff (sy_limiter (limiter_turn script_env ?s))"
    by (simp add: script_start_def)
  have "doubling 500 10000 (new_backoff (Finite (of_int 500)) (Finite (of_int 10000)) (Finite 2)) 500"
    by (rule doubling_new) simp_all
  from doubling_inv [OF this] have inv: "backoff_inv (lm_backoff (sy_limiter (limiter_turn script_env ?s)))"
    unfolding b .
  have "ms (wb_max (new_backoff (Finite (of_int 500)) (Finite (of_int 10000)) (Finite 2))) = 10000"
    unfolding new_backoff_def worker_backoff.select_convs by (rule ms_Finite)
  then have "ms (wb_max (lm_backoff (sy_limiter (limiter_turn script_env ?s)))) = 10000"
    unfolding b .
  from registered_delay [OF script_samples inv this, of None] show ?thesis by (simp add: Let_def)
qed

text \<open>The backoff is forgotten only when idle: with other tasks out of the way, the generator is
  reset exactly if at that moment no cooldown is running and the last rate-limit answer is more than
  five seconds old or there was none; otherwise it is kept.\<close>

theorem reset_only_when_idle:
  assumes "limiter_alone E"
  shows "(let s' = reset_rate_limit_backoff_if_idle E s;
              b = lm_backoff (sy_limiter s); b' = lm_backoff (sy_limiter s');
              limited = (case lm_last (sy_limiter s) of
                           None \<Rightarrow> False | Some t \<Rightarrow> sy_clock s' - t \<le> 5000000000)
          in (cooldown_end s' \<noteq> 0 \<longrightarrow> b' = b \<and> sy_clock s' < cooldown_end s)
             \<and> (cooldown_end s' = 0 \<longrightarrow> cooldown_end s \<le> sy_clock s'
                  \<and> b' = (if limited then b else reset_backoff b))
             \<and> lm_last (sy_limiter s') = lm_last (sy_limiter s))"
proof -
  note turn = limiter_turn_alone [OF assms]
  let ?s1 = "limiter_turn E s"
  show ?thesis
  proof (cases "lm_until (sy_limiter s)")
    case None
    then show ?thesis
      by (cases "lm_last (sy_limiter s)")
         (simp_all add: reset_rate_limit_backoff_if_idle_def turn cooldown_end_def Let_def case_prod_beta)
  next
    case (Some u)
    let ?s2 = "elapse E ?s1"
    show ?thesis
    proof (cases "sy_clock ?s2 < u")
      case True
      with Some show ?thesis
        by (simp add: reset_rate_limit_backoff_if_idle_def turn cooldown_end_def Let_def case_prod_beta)
    next
      case False
      let ?s3 = "?s2\<lparr>sy_limiter := (sy_limiter ?s2)\<lparr>lm_until := None\<rparr>\<rparr>"
      have "u \<le> sy_clock (elapse E (limiter_turn E ?s3))"
        using False elapse_clock [of "limiter_turn E ?s3" E] by simp
      with False Some show ?thesis
        by (cases "lm_last (sy_limiter s)")
           (simp_all add: reset_rate_limit_backoff_if_idle_def turn cooldown_end_def Let_def case_prod_beta)
    qed
  qed
qed

theorem reset_only_when_idle_witness:
  "lm_backoff (sy_limiter (reset_rate_limit_backoff_if_idle script_env
     (script_start (small_db ''indexing'' False) []))) = reset_backoff (new_backoff (Finite 500) (Finite 10000) (Finite 2))"
proof -
  let ?s = "script_start (small_db ''indexing'' False) []"
  have "cooldown_end ?s = 0" "lm_last (sy_limiter ?s) = None"
    "lm_backoff (sy_limiter ?s) = new_backoff (Finite 500) (Finite 10000) (Finite 2)"
    by (simp_all add: cooldown_end_def script_start_def)
  with reset_only_when_idle [OF script_alone, of ?s] show ?thesis
    by (simp add: Let_def)
qed

end
