(* ===== verification/Client.thy ===== *)
theory Client
  imports Limiter
begin

text \<open>
  The JSON-RPC client of \<open>src/requests/client.rs\<close>: one HTTP exchange, the \<open>retry-after\<close> header, the
  paged \<open>getSignaturesForAddress\<close> and the chunked \<open>getTransaction\<close>, with their retry loops. The fields
  of spans and warnings are computed where the code logs them, since masking can panic there.
\<close>

section \<open>Data\<close>

record rpc_http_response =
  rh_status :: nat
  rh_retry_after :: "nanos option"
  rh_body_text :: string

datatype tx_outcome =
    OutcomeSuccess string transaction_result
  | OutcomeFailed fetch_error

datatype fetch_attempt =
    AttemptSuccess transaction_info nat
  | AttemptRateLimited fetch_error "nanos option"
  | AttemptFatal fetch_error

record signatures_page =
  sp_response :: rpc_response
  sp_last_signature :: "string option"
  sp_raw_count :: usize
  sp_reached_cutoff :: bool

section \<open>Headers and snippets\<close>

definition from_secs :: "nat \<Rightarrow> nanos" where
  "from_secs n = n * 1000000000"

definition parse_retry_after_at ::
    "(string \<Rightarrow> string option) \<Rightarrow> (string \<Rightarrow> i64 option) \<Rightarrow> string option \<Rightarrow> i64 \<Rightarrow> nanos option" where
  "parse_retry_after_at header_text rfc2822 header now_ts = do {
     value \<leftarrow> header;
     text \<leftarrow> header_text value;
     let value = str_trim text;
     case rfc2822 value of
       Some date \<Rightarrow> Some (from_secs (if date - now_ts < 0 then 0 else nat (date - now_ts)))
     | None \<Rightarrow> do {
         seconds \<leftarrow> parse_unsigned 64 value;
         Some (from_secs seconds)
       }
   }"

definition newline_char :: "string \<Rightarrow> string" where
  "newline_char ch = (if ch = [CHR 0x0A] \<or> ch = [CHR 0x0D] then '' '' else ch)"

definition body_snippet :: "string \<Rightarrow> string" where
  "body_snippet body =
     (let chars = utf8_chars body
      in concat (map newline_char (take 200 chars)) @ (if drop 200 chars = [] then '''' else ''...''))"

section \<open>One exchange\<close>

definition send_rpc_request ::
    "'w env \<Rightarrow> helius_api \<Rightarrow> json \<Rightarrow> 'w sys \<Rightarrow> (rpc_http_response result \<times> 'w sys) option" where
  "send_rpc_request E api body s = do {
     (permit, s) \<leftarrow> acquire_request_slot E api s;
     case permit of
       Err e \<Rightarrow> Some (Err e, s)
     | Ok _ \<Rightarrow>
         let (response, w) = env_send E (ha_rpc_endpoint api) body (sy_world s);
             s = elapse E (s\<lparr>sy_world := w\<rparr>)
         in case response of
              Err e \<Rightarrow> Some (Err e, s)
            | Ok head \<Rightarrow>
                let (now_ts, s) = utc_now E s;
                    retry_after = parse_retry_after_at (env_header_text E) (env_rfc2822 E)
                                    (hh_retry_after head) now_ts;
                    (text, w) = env_text E (sy_world s);
                    s = elapse E (s\<lparr>sy_world := w\<rparr>)
                in case text of
                     Err e \<Rightarrow> Some (Err e, s)
                   | Ok body_text \<Rightarrow>
                       Some (Ok \<lparr>rh_status = hh_status head, rh_retry_after = retry_after,
                                 rh_body_text = body_text\<rparr>, s)
   }"

section \<open>A page of signatures\<close>

definition signatures_body :: "string \<Rightarrow> string option \<Rightarrow> json" where
  "signatures_body address last_signature =
     JObject [(''jsonrpc'', JString ''2.0''), (''id'', JString ''1''),
       (''method'', JString ''getSignaturesForAddress''),
       (''params'', JArray [JString address,
          JObject [(''before'', case last_signature of None \<Rightarrow> JNull | Some s \<Rightarrow> JString s),
                   (''limit'', JNumber ''1000'')]])]"

text \<open>\<open>1..=max_rate_limit_retries + 1\<close>; the sum is a \<open>usize\<close>.\<close>

definition attempts :: "helius_api \<Rightarrow> usize list" where
  "attempts api = [1..<Suc ((ha_max_rate_limit_retries api + 1) mod 2 ^ 64)]"

definition show_bool :: "bool \<Rightarrow> string" where
  "show_bool b = (if b then ''true'' else ''false'')"

definition page_of :: "signature_info list \<Rightarrow> i16 \<Rightarrow> i64 \<Rightarrow> signatures_page" where
  "page_of result requested_hours now_ts =
     (let recent = take_recent_signatures_at result requested_hours now_ts
      in \<lparr>sp_response = \<lparr>resp_result = rs_signatures recent\<rparr>,
          sp_last_signature = (if result = [] then None else Some (sig_signature (last result))),
          sp_raw_count = length result, sp_reached_cutoff = rs_reached_cutoff recent\<rparr>)"

lemma page_of_sel [simp]:
  "sp_raw_count (page_of result h now) = length result"
  "sp_last_signature (page_of result h now) = (if result = [] then None else Some (sig_signature (last result)))"
  "resp_result (sp_response (page_of result h now)) = rs_signatures (take_recent_signatures_at result h now)"
  "sp_reached_cutoff (page_of result h now) = rs_reached_cutoff (take_recent_signatures_at result h now)"
  by (simp_all add: page_of_def Let_def)

fun get_signatures_loop ::
    "'w env \<Rightarrow> helius_api \<Rightarrow> string \<Rightarrow> json \<Rightarrow> i16 \<Rightarrow> usize list \<Rightarrow> 'w sys \<Rightarrow>
     (signatures_page result \<times> 'w sys) option" where
  "get_signatures_loop E api address body requested_hours [] s =
     Some (Err (''getSignaturesForAddress exhausted retry budget after '' @
                show_nat ((ha_max_rate_limit_retries api + 1) mod 2 ^ 64) @ '' attempts''), s)"
| "get_signatures_loop E api address body requested_hours (attempt # rest) s = do {
     (response, s) \<leftarrow> send_rpc_request E api body s;
     case response of
       Err e \<Rightarrow> Some (Err e, s)
     | Ok response \<Rightarrow>
         let status = rh_status response
         in case env_decode_signatures E (rh_body_text response) of
              Err error \<Rightarrow>
                if status = 429 \<and> attempt \<le> ha_max_rate_limit_retries api
                then let (delay, s) = register_rate_limit E (rh_retry_after response) s
                     in do {
                       log_masked (env_client_warn E) address;
                       get_signatures_loop E api address body requested_hours rest s
                     }
                else Some (Err (''failed to decode getSignaturesForAddress response: status='' @
                                env_show_status E status @ '', error='' @ error), s)
            | Ok rpc_response \<Rightarrow>
                (case env_error rpc_response of
                   Some rpc_error \<Rightarrow>
                     if rpc_error_is_rate_limited rpc_error \<and> attempt \<le> ha_max_rate_limit_retries api
                     then let (delay, s) = register_rate_limit E (rh_retry_after response) s
                          in do {
                            log_masked (env_client_warn E) address;
                            get_signatures_loop E api address body requested_hours rest s
                          }
                     else Some (Err (''rpc error on getSignaturesForAddress: status='' @
                            env_show_status E status @ '', code='' @ show_int (err_code rpc_error) @
                            '', message='' @ err_message rpc_error @ '', rate_limited='' @
                            show_bool (rpc_error_is_rate_limited rpc_error)), s)
                 | None \<Rightarrow>
                     (case env_result rpc_response of
                        Missing \<Rightarrow>
                          Some (Err ''missing result field in getSignaturesForAddress response'', s)
                      | Null \<Rightarrow>
                          Some (Err ''rpc result is null in getSignaturesForAddress response'', s)
                      | Value result \<Rightarrow>
                          let (now_ts, s) = utc_now E s;
                              s = reset_rate_limit_backoff_if_idle E s
                          in Some (Ok (page_of result requested_hours now_ts), s)))
   }"

definition get_signatures ::
    "'w env \<Rightarrow> helius_api \<Rightarrow> string \<Rightarrow> string option \<Rightarrow> i16 \<Rightarrow> 'w sys \<Rightarrow>
     (signatures_page result \<times> 'w sys) option" where
  "get_signatures E api address last_signature requested_hours s = do {
     log_masked (env_client_info E) address;
     get_signatures_loop E api address (signatures_body address last_signature) requested_hours (attempts api) s
   }"

section \<open>One transaction\<close>

definition transaction_body :: "string \<Rightarrow> json" where
  "transaction_body signature =
     JObject [(''jsonrpc'', JString ''2.0''), (''id'', JString ''1''),
       (''method'', JString ''getTransaction''),
       (''params'', JArray [JString signature,
          JObject [(''maxSupportedTransactionVersion'', JNumber ''0''),
                   (''encoding'', JString ''jsonParsed'')]])]"

text \<open>A reply that arrived, classified.\<close>

definition classify_reply :: "'w env \<Rightarrow> string \<Rightarrow> rpc_http_response \<Rightarrow> fetch_attempt" where
  "classify_reply E signature response =
     (let status = rh_status response;
          failure = (\<lambda>code message. \<lparr>fe_signature = signature, fe_status_code = Some status,
                                     fe_rpc_code = code, fe_message = message\<rparr>);
          limited_or_fatal = (\<lambda>e. if fetch_error_is_rate_limited e
                                  then AttemptRateLimited e (rh_retry_after response)
                                  else AttemptFatal e)
      in case env_decode_envelope E (rh_body_text response) of
           Err error \<Rightarrow>
             limited_or_fatal (failure None (''failed to decode rpc envelope: '' @ error @
                                 ''; body='' @ body_snippet (rh_body_text response)))
         | Ok rpc_response \<Rightarrow>
             (case env_error rpc_response of
                Some rpc_error \<Rightarrow>
                  limited_or_fatal (failure (Some (err_code rpc_error)) (err_message rpc_error))
              | None \<Rightarrow>
                  (case env_result rpc_response of
                     Missing \<Rightarrow> AttemptFatal (failure None ''missing result field in rpc response'')
                   | Null \<Rightarrow> AttemptFatal (failure None ''rpc result is null'')
                   | Value result_value \<Rightarrow>
                       (case env_decode_transaction E result_value of
                          Ok tx_info \<Rightarrow> AttemptSuccess tx_info status
                        | Err error \<Rightarrow>
                            AttemptFatal (failure None
                              (''failed to decode transaction result: '' @ error))))))"

definition try_fetch_transaction_once ::
    "'w env \<Rightarrow> helius_api \<Rightarrow> string \<Rightarrow> json \<Rightarrow> 'w sys \<Rightarrow> (fetch_attempt \<times> 'w sys) option" where
  "try_fetch_transaction_once E api signature body s = do {
     (response, s) \<leftarrow> send_rpc_request E api body s;
     case response of
       Err error \<Rightarrow>
         Some (AttemptFatal \<lparr>fe_signature = signature, fe_status_code = None, fe_rpc_code = None,
                             fe_message = ''request failed: '' @ error\<rparr>, s)
     | Ok response \<Rightarrow> Some (classify_reply E signature response, s)
   }"

fun fetch_transaction_loop ::
    "'w env \<Rightarrow> helius_api \<Rightarrow> string \<Rightarrow> fetch_error option \<Rightarrow> usize list \<Rightarrow> 'w sys \<Rightarrow>
     (tx_outcome \<times> 'w sys) option" where
  "fetch_transaction_loop E api signature last_rate_limit_error [] s =
     Some (OutcomeFailed (case last_rate_limit_error of
             Some e \<Rightarrow> e
           | None \<Rightarrow> \<lparr>fe_signature = signature, fe_status_code = None, fe_rpc_code = None,
               fe_message = ''getTransaction exhausted retry budget after '' @
                 show_nat ((ha_max_rate_limit_retries api + 1) mod 2 ^ 64) @ '' attempts''\<rparr>), s)"
| "fetch_transaction_loop E api signature last_rate_limit_error (attempt # rest) s = do {
     (reply, s) \<leftarrow> try_fetch_transaction_once E api signature (transaction_body signature) s;
     case reply of
       AttemptSuccess tx_info status \<Rightarrow>
         let s = reset_rate_limit_backoff_if_idle E s
         in Some (OutcomeSuccess signature \<lparr>tr_result = tx_info, tr_token_transfer_changes = []\<rparr>, s)
     | AttemptRateLimited fetch_error retry_after \<Rightarrow>
         if attempt \<le> ha_max_rate_limit_retries api
         then let (delay, s) = register_rate_limit E retry_after s
              in do {
                log_masked (env_client_warn E) signature;
                fetch_transaction_loop E api signature (Some fetch_error) rest s
              }
         else Some (OutcomeFailed fetch_error, s)
     | AttemptFatal fetch_error \<Rightarrow> Some (OutcomeFailed fetch_error, s)
   }"

definition fetch_transaction_by_signature ::
    "'w env \<Rightarrow> helius_api \<Rightarrow> string \<Rightarrow> 'w sys \<Rightarrow> (tx_outcome \<times> 'w sys) option" where
  "fetch_transaction_by_signature E api signature s =
     fetch_transaction_loop E api signature None (attempts api) s"

section \<open>Batches of transactions\<close>

definition empty_batch :: transaction_batch where
  "empty_batch = \<lparr>tb_transactions = [], tb_processed_signatures = [], tb_failed_signatures = [],
                  tb_errors = []\<rparr>"

fun push_outcome :: "transaction_batch \<Rightarrow> tx_outcome \<Rightarrow> transaction_batch" where
  "push_outcome b (OutcomeSuccess signature tx) =
     b\<lparr>tb_processed_signatures := tb_processed_signatures b @ [signature],
       tb_transactions := tb_transactions b @ [tx]\<rparr>"
| "push_outcome b (OutcomeFailed error) =
     b\<lparr>tb_failed_signatures := tb_failed_signatures b @ [fe_signature error],
       tb_errors := tb_errors b @ [error]\<rparr>"

text \<open>\<open>buffered\<close> yields the outcomes in the order of the signatures.\<close>

fun fetch_outcomes ::
    "'w env \<Rightarrow> helius_api \<Rightarrow> string list \<Rightarrow> 'w sys \<Rightarrow> (tx_outcome list \<times> 'w sys) option" where
  "fetch_outcomes E api [] s = Some ([], s)"
| "fetch_outcomes E api (sig # sigs) s = do {
     (o1, s) \<leftarrow> fetch_transaction_by_signature E api sig s;
     (os, s) \<leftarrow> fetch_outcomes E api sigs s;
     Some (o1 # os, s)
   }"

text \<open>The warning of a batch with failures masks the signature of the first one.\<close>

definition log_first_error :: "'w env \<Rightarrow> fetch_error list \<Rightarrow> unit option" where
  "log_first_error E errors =
     (case errors of [] \<Rightarrow> Some () | e # _ \<Rightarrow> log_masked (env_client_warn E) (fe_signature e))"

definition fetch_transaction_chunk ::
    "'w env \<Rightarrow> helius_api \<Rightarrow> string list \<Rightarrow> 'w sys \<Rightarrow> (transaction_batch \<times> 'w sys) option" where
  "fetch_transaction_chunk E api sigs s = do {
     (outcomes, s) \<leftarrow> fetch_outcomes E api sigs s;
     let batch = foldl push_outcome empty_batch outcomes;
     log_first_error E (tb_errors batch);
     Some (batch, s)
   }"

definition append_batch :: "transaction_batch \<Rightarrow> transaction_batch \<Rightarrow> transaction_batch" where
  "append_batch acc chunk =
     \<lparr>tb_transactions = tb_transactions acc @ tb_transactions chunk,
      tb_processed_signatures = tb_processed_signatures acc @ tb_processed_signatures chunk,
      tb_failed_signatures = tb_failed_signatures acc @ tb_failed_signatures chunk,
      tb_errors = tb_errors acc @ tb_errors chunk\<rparr>"

fun get_transaction_loop ::
    "'w env \<Rightarrow> helius_api \<Rightarrow> string list list \<Rightarrow> transaction_batch \<Rightarrow> 'w sys \<Rightarrow>
     (transaction_batch \<times> 'w sys) option" where
  "get_transaction_loop E api [] acc s = Some (acc, s)"
| "get_transaction_loop E api (c # cs) acc s = do {
     (chunk, s) \<leftarrow> fetch_transaction_chunk E api c s;
     let chunk = chunk\<lparr>tb_transactions :=
           map (calculate_token_transfer (env_pow_f64 E)) (tb_transactions chunk)\<rparr>;
     get_transaction_loop E api cs (append_batch acc chunk) (sleep E 100000000 s)
   }"

text \<open>The code's result type has an error case that \<open>fetch_transaction_chunk\<close> never produces.\<close>

definition get_transaction ::
    "'w env \<Rightarrow> helius_api \<Rightarrow> string list \<Rightarrow> 'w sys \<Rightarrow> (transaction_batch result \<times> 'w sys) option" where
  "get_transaction E api sigs s = do {
     (batch, s) \<leftarrow> get_transaction_loop E api (chunks 10 sigs) empty_batch s;
     log_first_error E (tb_errors batch);
     Some (Ok batch, s)
   }"

end
