(* ===== verification/ClientProps.thy ===== *)
theory ClientProps
  imports Client "HOL-Library.Multiset" "HOL-Library.Sublist"
begin

text \<open>
  What the client guarantees: it touches no table, sends a bounded number of requests, always returns
  when the service does, reports every signature it was asked for exactly once, and explains every
  failure.
\<close>

section \<open>Counting requests\<close>

text \<open>A counter of the world that only sending a request moves.\<close>

definition counts_requests :: "'w env \<Rightarrow> ('w \<Rightarrow> nat) \<Rightarrow> bool" where
  "counts_requests E c \<longleftrightarrow>
     (\<forall>w. c (snd (env_elapse E w)) = c w) \<and> (\<forall>w. c (snd (env_utc_secs E w)) = c w)
     \<and> (\<forall>w. c (snd (env_sample E w)) = c w) \<and> (\<forall>l w. c (snd (env_others_limiter E l w)) = c w)
     \<and> (\<forall>n w p w'. env_acquire E n w = Some (p, w') \<longrightarrow> c w' = c w) \<and> (\<forall>w. c (snd (env_text E w)) = c w)
     \<and> (\<forall>e b w. c (snd (env_send E e b w)) = Suc (c w))"

definition sent :: "('w \<Rightarrow> nat) \<Rightarrow> 'w sys \<Rightarrow> nat" where
  "sent c s = c (sy_world s)"

lemma sent_upd [simp]:
  "sent c (s\<lparr>sy_limiter := l\<rparr>) = sent c s" "sent c (s\<lparr>sy_clock := n\<rparr>) = sent c s"
  "sent c (s\<lparr>sy_world := w\<rparr>) = c w"
  by (simp_all add: sent_def)

lemma sent_elapse: "counts_requests E c \<Longrightarrow> sent c (elapse E s) = sent c s"
  by (simp add: sent_def elapse_def counts_requests_def Let_def case_prod_beta)

lemma sent_sleep: "counts_requests E c \<Longrightarrow> sent c (sleep E d s) = sent c s"
  by (simp add: sleep_def sent_elapse)

lemma sent_turn: "counts_requests E c \<Longrightarrow> sent c (limiter_turn E s) = sent c s"
  by (simp add: sent_def limiter_turn_def counts_requests_def Let_def case_prod_beta)

lemma sent_utc: "counts_requests E c \<Longrightarrow> sent c (snd (utc_now E s)) = sent c s"
  by (simp add: sent_def utc_now_def counts_requests_def Let_def case_prod_beta)

lemma sent_draw: "counts_requests E c \<Longrightarrow> sent c (snd (draw_backoff E s)) = sent c s"
  using sent_turn [of E c s]
  by (simp add: sent_def draw_backoff_def counts_requests_def Let_def case_prod_beta)

lemmas sent_simps = sent_elapse sent_sleep sent_turn sent_utc sent_draw

lemma sent_wait:
  "counts_requests E c \<Longrightarrow> wait_for_rate_limit_cooldown E s = Some s' \<Longrightarrow> sent c s' = sent c s"
  by (rule wait_keeps [where f = "sent c"]) (simp_all add: sent_simps)

lemma sent_chosen: "counts_requests E c \<Longrightarrow> sent c (snd (chosen_delay E ra s)) = sent c s"
  by (simp add: chosen_delay_def sent_simps split: option.split)

lemma sent_register: "counts_requests E c \<Longrightarrow> sent c (snd (register_rate_limit E ra s)) = sent c s"
  by (simp add: register_rate_limit_def chosen_delay_def [symmetric] Let_def case_prod_beta
        sent_simps sent_chosen split: option.split)

lemma sent_reset: "counts_requests E c \<Longrightarrow> sent c (reset_rate_limit_backoff_if_idle E s) = sent c s"
  by (simp add: reset_rate_limit_backoff_if_idle_def Let_def case_prod_beta sent_simps split: option.split)

lemma sent_acquire:
  assumes "counts_requests E c" and "acquire_request_slot E api s = Some (r, s')"
  shows "sent c s' = sent c s"
proof -
  from assms(2) obtain s1 p w where s1: "wait_for_rate_limit_cooldown E s = Some s1"
    and p: "env_acquire E (ha_max_concurrent api) (sy_world s1) = Some (p, w)"
    by (auto simp: acquire_request_slot_def bind_eq_Some_conv)
  let ?s2 = "elapse E (s1\<lparr>sy_world := w\<rparr>)"
  have "c w = c (sy_world s1)" using assms(1) p unfolding counts_requests_def by blast
  then have s2: "sent c ?s2 = sent c s1" using assms(1) by (simp add: sent_elapse) (simp add: sent_def)
  show ?thesis
    using assms s1 p s2 sent_wait [OF assms(1) s1] sent_wait [OF assms(1), of ?s2]
    by (auto simp: acquire_request_slot_def bind_eq_Some_conv Let_def case_prod_beta sent_elapse
        split: sum.splits)
qed

lemma sent_send:
  assumes "counts_requests E c" and "send_rpc_request E api body s = Some (r, s')"
  shows "sent c s' \<le> Suc (sent c s)"
proof -
  from assms(2) obtain p s1 where a: "acquire_request_slot E api s = Some (p, s1)"
    by (auto simp: send_rpc_request_def bind_eq_Some_conv)
  note a' = sent_acquire [OF assms(1) a]
  let ?w = "snd (env_send E (ha_rpc_endpoint api) body (sy_world s1))"
  let ?s2 = "elapse E (s1\<lparr>sy_world := ?w\<rparr>)"
  have s2: "sent c ?s2 = Suc (sent c s)"
    using assms(1) a' by (simp add: sent_elapse) (simp add: counts_requests_def sent_def)
  let ?s3 = "snd (utc_now E ?s2)"
  let ?s4 = "elapse E (?s3\<lparr>sy_world := snd (env_text E (sy_world ?s3))\<rparr>)"
  have s4: "sent c ?s4 = sent c ?s2"
    using assms(1) sent_utc [OF assms(1), of ?s2]
    by (simp add: sent_elapse) (simp add: counts_requests_def sent_def)
  from assms(2) a have "s' = s1 \<or> s' = ?s2 \<or> s' = ?s4"
    by (auto simp: send_rpc_request_def Let_def case_prod_beta split: sum.splits)
  with s2 s4 a' show ?thesis by auto
qed

lemma sent_signatures_loop:
  assumes "counts_requests E c"
  shows "get_signatures_loop E api address body h as s = Some (r, s') \<Longrightarrow> sent c s' \<le> sent c s + length as"
proof (induction as arbitrary: s)
  case (Cons a as)
  from Cons.prems obtain p s1 where p: "send_rpc_request E api body s = Some (p, s1)"
    by (auto simp: bind_eq_Some_conv)
  note one = sent_send [OF assms p]
  let ?reg = "\<lambda>ra. snd (register_rate_limit E ra s1)"
  have "s' = s1 \<or> (\<exists>ra. get_signatures_loop E api address body h as (?reg ra) = Some (r, s'))
      \<or> s' = reset_rate_limit_backoff_if_idle E (snd (utc_now E s1))"
    using Cons.prems p
    by (auto simp: Let_def case_prod_beta split: sum.splits option.splits if_splits response_field.splits)
  then show ?case
    using one Cons.IH [of "?reg _"] sent_register [OF assms, of _ s1] sent_reset [OF assms] sent_utc [OF assms]
    by fastforce
qed simp

lemma sent_fetch_loop:
  assumes "counts_requests E c"
  shows "fetch_transaction_loop E api sig prev as s = Some (r, s') \<Longrightarrow> sent c s' \<le> sent c s + length as"
proof (induction as arbitrary: s prev)
  case (Cons a as)
  from Cons.prems obtain p s1 where p: "send_rpc_request E api (transaction_body sig) s = Some (p, s1)"
    by (auto simp: try_fetch_transaction_once_def bind_eq_Some_conv)
  note one = sent_send [OF assms p]
  let ?reg = "\<lambda>ra. snd (register_rate_limit E ra s1)"
  have "s' = s1 \<or> (\<exists>ra e. fetch_transaction_loop E api sig e as (?reg ra) = Some (r, s'))
      \<or> s' = reset_rate_limit_backoff_if_idle E s1"
    using Cons.prems p
    by (auto simp: try_fetch_transaction_once_def Let_def case_prod_beta
        split: sum.splits option.splits if_splits fetch_attempt.splits)
  then show ?case
    using one Cons.IH [of _ "?reg _"] sent_register [OF assms, of _ s1] sent_reset [OF assms]
    by fastforce
qed simp

section \<open>The tables and termination\<close>

lemma send_db:
  assumes "send_rpc_request E api body s = Some (r, s')"
  shows "sy_db s' = sy_db s"
proof -
  from assms obtain p s1 where a: "acquire_request_slot E api s = Some (p, s1)"
    by (auto simp: send_rpc_request_def bind_eq_Some_conv)
  with assms acquire_Some(1) [OF a] show ?thesis
    by (auto simp: send_rpc_request_def Let_def case_prod_beta split: sum.splits)
qed

lemma reset_db [simp]: "sy_db (reset_rate_limit_backoff_if_idle E s) = sy_db s"
  by (simp add: reset_rate_limit_backoff_if_idle_def Let_def case_prod_beta split: option.split)

lemma signatures_loop_db:
  "get_signatures_loop E api address body h as s = Some (r, s') \<Longrightarrow> sy_db s' = sy_db s"
proof (induction as arbitrary: s)
  case (Cons a as)
  from Cons.prems obtain p s1 where p: "send_rpc_request E api body s = Some (p, s1)"
    by (auto simp: bind_eq_Some_conv)
  have "s' = s1 \<or> (\<exists>ra. get_signatures_loop E api address body h as (snd (register_rate_limit E ra s1)) = Some (r, s'))
      \<or> s' = reset_rate_limit_backoff_if_idle E (snd (utc_now E s1))"
    using Cons.prems p
    by (auto simp: Let_def case_prod_beta split: sum.splits option.splits if_splits response_field.splits)
  then show ?case using Cons.IH send_db [OF p] by fastforce
qed simp

lemma fetch_loop_db:
  "fetch_transaction_loop E api sig prev as s = Some (r, s') \<Longrightarrow> sy_db s' = sy_db s"
proof (induction as arbitrary: s prev)
  case (Cons a as)
  from Cons.prems obtain p s1 where p: "send_rpc_request E api (transaction_body sig) s = Some (p, s1)"
    by (auto simp: try_fetch_transaction_once_def bind_eq_Some_conv)
  have "s' = s1
      \<or> (\<exists>ra e. fetch_transaction_loop E api sig e as (snd (register_rate_limit E ra s1)) = Some (r, s'))
      \<or> s' = reset_rate_limit_backoff_if_idle E s1"
    using Cons.prems p
    by (auto simp: try_fetch_transaction_once_def Let_def case_prod_beta
        split: sum.splits option.splits if_splits fetch_attempt.splits)
  then show ?case using Cons.IH send_db [OF p] by fastforce
qed simp

lemma fetch_outcomes_db: "fetch_outcomes E api sigs s = Some (os, s') \<Longrightarrow> sy_db s' = sy_db s"
proof (induction sigs arbitrary: s os)
  case (Cons sig sigs)
  then show ?case
    using fetch_loop_db by (fastforce simp: bind_eq_Some_conv fetch_transaction_by_signature_def)
qed simp

lemma get_transaction_loop_db:
  "get_transaction_loop E api cs acc s = Some (b, s') \<Longrightarrow> sy_db s' = sy_db s"
proof (induction cs arbitrary: s acc)
  case (Cons c cs)
  from Cons.prems obtain os s1 where "fetch_outcomes E api c s = Some (os, s1)"
    by (auto simp: bind_eq_Some_conv fetch_transaction_chunk_def)
  with Cons fetch_outcomes_db [OF this] show ?case
    by (auto simp: bind_eq_Some_conv fetch_transaction_chunk_def Let_def)
qed simp

lemma get_signatures_Some:
  "get_signatures E api address before h s = Some x \<Longrightarrow>
   get_signatures_loop E api address (signatures_body address before) h (attempts api) s = Some x"
  by (simp add: get_signatures_def)

lemma get_signatures_db: "get_signatures E api a l h s = Some (r, s') \<Longrightarrow> sy_db s' = sy_db s"
  by (drule get_signatures_Some) (rule signatures_loop_db)

lemma get_transaction_db: "get_transaction E api sigs s = Some (r, s') \<Longrightarrow> sy_db s' = sy_db s"
  using get_transaction_loop_db by (fastforce simp: get_transaction_def bind_eq_Some_conv)

section \<open>Outcomes\<close>

text \<open>A success carries the transaction of a decodable reply without an error; a failure names the
  signature and either the transport failed or a reply was classified as this failure.\<close>

fun outcome_sound :: "'w env \<Rightarrow> string \<Rightarrow> tx_outcome \<Rightarrow> bool" where
  "outcome_sound E sig (OutcomeSuccess sig' tx) \<longleftrightarrow>
     sig' = sig \<and> tr_token_transfer_changes tx = []
     \<and> (\<exists>text v. env_decode_envelope E text = Ok \<lparr>env_result = Value v, env_error = None\<rparr>
          \<and> env_decode_transaction E v = Ok (tr_result tx))"
| "outcome_sound E sig (OutcomeFailed e) \<longleftrightarrow>
     fe_signature e = sig
     \<and> (fe_status_code e = None \<and> fe_rpc_code e = None \<and> (\<exists>cause. fe_message e = ''request failed: '' @ cause)
        \<or> (\<exists>response ra. classify_reply E sig response \<in> {AttemptFatal e, AttemptRateLimited e ra}))"

lemma classify_success:
  assumes "classify_reply E sig response = AttemptSuccess tx st"
  shows "\<exists>text v. env_decode_envelope E text = Ok \<lparr>env_result = Value v, env_error = None\<rparr>
          \<and> env_decode_transaction E v = Ok tx"
proof -
  from assms obtain v env where "env_decode_envelope E (rh_body_text response) = Ok env"
    "env_error env = None" "env_result env = Value v" "env_decode_transaction E v = Ok tx"
    by (auto simp: classify_reply_def Let_def split: sum.splits option.splits response_field.splits if_splits)
  then show ?thesis by (intro exI [of _ "rh_body_text response"] exI [of _ v]) (cases env; simp)
qed

lemma classify_signature:
  "classify_reply E sig response \<in> {AttemptFatal e, AttemptRateLimited e ra} \<Longrightarrow>
   fe_signature e = sig \<and> fe_status_code e = Some (rh_status response)"
  by (auto simp: classify_reply_def Let_def split: sum.splits option.splits response_field.splits if_splits)

lemma fetch_loop_sound:
  assumes "fetch_transaction_loop E api sig prev as s = Some (out, s')"
    and "as \<noteq> []" and "ha_max_rate_limit_retries api < last as"
  shows "outcome_sound E sig out"
  using assms
proof (induction as arbitrary: s prev)
  case (Cons a as)
  from Cons.prems obtain p s1 where p: "send_rpc_request E api (transaction_body sig) s = Some (p, s1)"
    by (auto simp: try_fetch_transaction_once_def bind_eq_Some_conv)
  show ?case
  proof (cases p)
    case (Inl e)
    with Cons.prems p show ?thesis by (auto simp: try_fetch_transaction_once_def)
  next
    case (Inr response)
    show ?thesis
    proof (cases "classify_reply E sig response")
      case (AttemptSuccess tx st)
      then have "out = OutcomeSuccess sig \<lparr>tr_result = tx, tr_token_transfer_changes = []\<rparr>"
        using Cons.prems p Inr by (auto simp: try_fetch_transaction_once_def Let_def)
      with classify_success [OF AttemptSuccess] show ?thesis by simp
    next
      case (AttemptFatal e)
      then have "out = OutcomeFailed e"
        using Cons.prems p Inr by (auto simp: try_fetch_transaction_once_def Let_def)
      with AttemptFatal classify_signature [of E sig response e None] show ?thesis by auto
    next
      case (AttemptRateLimited e ra)
      show ?thesis
      proof (cases "a \<le> ha_max_rate_limit_retries api")
        case True
        then have "as \<noteq> []" "ha_max_rate_limit_retries api < last as"
          using Cons.prems(3) by (simp_all split: if_splits)
        moreover have "fetch_transaction_loop E api sig (Some e) as (snd (register_rate_limit E ra s1))
            = Some (out, s')"
          using Cons.prems(1) p Inr AttemptRateLimited True
          by (simp add: try_fetch_transaction_once_def Let_def case_prod_beta)
        ultimately show ?thesis by (intro Cons.IH)
      next
        case False
        then have "out = OutcomeFailed e"
          using Cons.prems p Inr AttemptRateLimited by (auto simp: try_fetch_transaction_once_def Let_def)
        with AttemptRateLimited classify_signature [of E sig response e ra] show ?thesis by auto
      qed
    qed
  qed
qed simp

text \<open>Retries that fit a \<open>usize\<close>.\<close>

definition retries_fit :: "helius_api \<Rightarrow> bool" where
  "retries_fit api \<longleftrightarrow> ha_max_rate_limit_retries api + 1 < 2 ^ 64"

lemma attempts_fit:
  "retries_fit api \<Longrightarrow> attempts api \<noteq> [] \<and> last (attempts api) = ha_max_rate_limit_retries api + 1"
  by (simp add: attempts_def retries_fit_def)

lemma attempts_length: "length (attempts api) \<le> ha_max_rate_limit_retries api + 1"
  by (simp add: attempts_def)

lemma fetch_sound:
  "retries_fit api \<Longrightarrow> fetch_transaction_by_signature E api sig s = Some (out, s') \<Longrightarrow> outcome_sound E sig out"
  unfolding fetch_transaction_by_signature_def
  using attempts_fit [of api] by (intro fetch_loop_sound) auto

text \<open>Whatever holds of the outcome of every single fetch holds of the outcomes of a batch.\<close>

lemma fetch_outcomes_all2:
  assumes "\<And>sig s out s'. fetch_transaction_by_signature E api sig s = Some (out, s') \<Longrightarrow> Q sig out"
  shows "fetch_outcomes E api sigs s = Some (os, s') \<Longrightarrow> list_all2 Q sigs os"
proof (induction sigs arbitrary: s os)
  case (Cons sig sigs)
  then show ?case by (auto simp: bind_eq_Some_conv intro: assms)
qed simp

section \<open>Batches\<close>

fun successes :: "tx_outcome list \<Rightarrow> (string \<times> transaction_result) list" where
  "successes [] = []"
| "successes (OutcomeSuccess sig tx # os) = (sig, tx) # successes os"
| "successes (OutcomeFailed e # os) = successes os"

fun failures :: "tx_outcome list \<Rightarrow> fetch_error list" where
  "failures [] = []"
| "failures (OutcomeSuccess sig tx # os) = failures os"
| "failures (OutcomeFailed e # os) = e # failures os"

lemma successes_append [simp]: "successes (xs @ ys) = successes xs @ successes ys"
  by (induction xs rule: successes.induct) simp_all

lemma failures_append [simp]: "failures (xs @ ys) = failures xs @ failures ys"
  by (induction xs rule: failures.induct) simp_all

definition batch_of :: "(transaction_result \<Rightarrow> transaction_result) \<Rightarrow> tx_outcome list \<Rightarrow> transaction_batch" where
  "batch_of f os =
     \<lparr>tb_transactions = map (f \<circ> snd) (successes os), tb_processed_signatures = map fst (successes os),
      tb_failed_signatures = map fe_signature (failures os), tb_errors = failures os\<rparr>"

lemma foldl_push: "foldl push_outcome b os = append_batch b (batch_of id os)"
proof (induction os arbitrary: b rule: successes.induct)
  case 1
  then show ?case by (simp add: append_batch_def batch_of_def)
qed (simp_all add: append_batch_def batch_of_def)

lemma chunk_batch:
  assumes "fetch_transaction_chunk E api sigs s = Some (b, s')"
  obtains os where "fetch_outcomes E api sigs s = Some (os, s')" and "b = batch_of id os"
  using assms
  by (auto simp: fetch_transaction_chunk_def bind_eq_Some_conv foldl_push append_batch_def empty_batch_def)

lemma append_batch_of: "append_batch (append_batch b (batch_of f xs)) (batch_of f ys) = append_batch b (batch_of f (xs @ ys))"
  by (simp add: append_batch_def batch_of_def)

lemma get_transaction_loop_batch:
  assumes "\<And>sig s out s'. fetch_transaction_by_signature E api sig s = Some (out, s') \<Longrightarrow> Q sig out"
  shows "get_transaction_loop E api cs acc s = Some (b, s') \<Longrightarrow>
    \<exists>os. list_all2 Q (concat cs) os
       \<and> b = append_batch acc (batch_of (calculate_token_transfer (env_pow_f64 E)) os)"
proof (induction cs arbitrary: acc s)
  case Nil
  then show ?case by (simp add: append_batch_def batch_of_def)
next
  case (Cons c cs)
  from Cons.prems obtain ch s1 where ch: "fetch_transaction_chunk E api c s = Some (ch, s1)"
    by (auto simp: bind_eq_Some_conv)
  from chunk_batch [OF this] obtain os where os: "fetch_outcomes E api c s = Some (os, s1)" "ch = batch_of id os" .
  let ?f = "calculate_token_transfer (env_pow_f64 E)"
  have "ch\<lparr>tb_transactions := map ?f (tb_transactions ch)\<rparr> = batch_of ?f os"
    by (simp add: os(2) batch_of_def)
  with Cons.prems ch have "get_transaction_loop E api cs (append_batch acc (batch_of ?f os))
      (sleep E 100000000 s1) = Some (b, s')" by (simp add: Let_def)
  from Cons.IH [OF this] obtain os' where "list_all2 Q (concat cs) os'"
    "b = append_batch (append_batch acc (batch_of ?f os)) (batch_of ?f os')" by blast
  with fetch_outcomes_all2 [OF assms os(1)] show ?case
    by (intro exI [of _ "os @ os'"]) (simp add: append_batch_of list_all2_appendI)
qed

lemma get_transaction_batch:
  assumes "\<And>sig s out s'. fetch_transaction_by_signature E api sig s = Some (out, s') \<Longrightarrow> Q sig out"
    and "get_transaction E api sigs s = Some (r, s')"
  obtains os where "list_all2 Q sigs os"
    and "r = Ok (batch_of (calculate_token_transfer (env_pow_f64 E)) os)"
proof -
  from assms(2) obtain b where b: "get_transaction_loop E api (chunks 10 sigs) empty_batch s = Some (b, s')"
    "r = Ok b" by (auto simp: get_transaction_def bind_eq_Some_conv)
  have "\<exists>os. list_all2 Q (concat (chunks 10 sigs)) os
      \<and> b = append_batch empty_batch (batch_of (calculate_token_transfer (env_pow_f64 E)) os)"
    by (rule get_transaction_loop_batch [OF _ b(1)]) (rule assms(1))
  then obtain os where
    os: "list_all2 Q sigs os" "b = append_batch empty_batch (batch_of (calculate_token_transfer (env_pow_f64 E)) os)"
    by auto
  from os(2) b(2) have "r = Ok (batch_of (calculate_token_transfer (env_pow_f64 E)) os)"
    by (simp add: append_batch_def empty_batch_def batch_of_def)
  with os(1) show thesis by (rule that)
qed

lemma outcomes_mset:
  "list_all2 (outcome_sound E) sigs os \<Longrightarrow>
   mset (map fst (successes os)) + mset (map fe_signature (failures os)) = mset sigs"
proof (induction sigs os rule: list_all2_induct)
  case (Cons sig sigs out os)
  then show ?case by (cases out) auto
qed simp

lemma outcomes_subseq:
  "list_all2 (outcome_sound E) sigs os \<Longrightarrow>
   subseq (map fst (successes os)) sigs \<and> subseq (map fe_signature (failures os)) sigs"
proof (induction sigs os rule: list_all2_induct)
  case (Cons sig sigs out os)
  then show ?case by (cases out) auto
qed simp

lemma failures_explained:
  "list_all2 (outcome_sound E) sigs os \<Longrightarrow> e \<in> set (failures os) \<Longrightarrow>
   outcome_sound E (fe_signature e) (OutcomeFailed e)"
proof (induction sigs os rule: list_all2_induct)
  case (Cons sig sigs out os)
  then show ?case by (cases out) auto
qed simp

lemma successes_decoded:
  "list_all2 (outcome_sound E) sigs os \<Longrightarrow> (sig, tx) \<in> set (successes os) \<Longrightarrow>
   outcome_sound E sig (OutcomeSuccess sig tx)"
proof (induction sigs os rule: list_all2_induct)
  case (Cons s sigs out os)
  then show ?case by (cases out) auto
qed simp

lemma sent_outcomes:
  assumes "counts_requests E c"
  shows "fetch_outcomes E api sigs s = Some (os, s') \<Longrightarrow>
    sent c s' \<le> sent c s + length sigs * (ha_max_rate_limit_retries api + 1)"
proof (induction sigs arbitrary: s os)
  case (Cons sig sigs)
  from Cons.prems obtain out os' s1 where
    o1: "fetch_transaction_loop E api sig None (attempts api) s = Some (out, s1)" and
    o2: "fetch_outcomes E api sigs s1 = Some (os', s')"
    by (auto simp: bind_eq_Some_conv fetch_transaction_by_signature_def)
  from sent_fetch_loop [OF assms o1] attempts_length [of api]
  have "sent c s1 \<le> sent c s + (ha_max_rate_limit_retries api + 1)" by simp
  with Cons.IH [OF o2] show ?case by simp
qed simp

lemma sent_transactions:
  assumes "counts_requests E c"
  shows "get_transaction_loop E api cs acc s = Some (b, s') \<Longrightarrow>
    sent c s' \<le> sent c s + length (concat cs) * (ha_max_rate_limit_retries api + 1)"
proof (induction cs arbitrary: s acc)
  case (Cons ch cs)
  from Cons.prems obtain os s1 acc' where
    o1: "fetch_outcomes E api ch s = Some (os, s1)" and
    o2: "get_transaction_loop E api cs acc' (sleep E 100000000 s1) = Some (b, s')"
    by (auto simp: bind_eq_Some_conv fetch_transaction_chunk_def Let_def)
  from sent_outcomes [OF assms o1] Cons.IH [OF o2] sent_sleep [OF assms, of 100000000 s1] show ?case
    by (simp add: algebra_simps)
qed simp

lemma utc_now_time: "fst (utc_now E s) = fst (env_utc_secs E (sy_world s))"
  by (simp add: utc_now_def case_prod_beta Let_def)

lemma signatures_loop_reply:
  "get_signatures_loop E api address body h as s = Some (Ok page, s') \<Longrightarrow>
   \<exists>response s0 s1 result w. send_rpc_request E api body s0 = Some (Ok response, s1)
     \<and> env_decode_signatures E (rh_body_text response) = Ok \<lparr>env_result = Value result, env_error = None\<rparr>
     \<and> page = page_of result h (fst (env_utc_secs E w))"
proof (induction as arbitrary: s)
  case (Cons a as)
  from Cons.prems obtain q s1 where q: "send_rpc_request E api body s = Some (q, s1)"
    by (auto simp: bind_eq_Some_conv)
  with Cons.prems obtain response where p: "send_rpc_request E api body s = Some (Ok response, s1)"
    by (cases q) simp_all
  have "(\<exists>ra. get_signatures_loop E api address body h as (snd (register_rate_limit E ra s1)) = Some (Ok page, s'))
     \<or> (\<exists>env result. env_decode_signatures E (rh_body_text response) = Ok env
          \<and> env_error env = None \<and> env_result env = Value result
          \<and> page = page_of result h (fst (env_utc_secs E (sy_world s1))))"
    using Cons.prems p
    by (auto simp: Let_def case_prod_beta utc_now_time split: sum.splits option.splits if_splits response_field.splits)
  then show ?case
  proof (elim disjE exE conjE)
    fix ra assume "get_signatures_loop E api address body h as (snd (register_rate_limit E ra s1)) = Some (Ok page, s')"
    then show ?thesis by (rule Cons.IH)
  next
    fix env result
    assume "env_decode_signatures E (rh_body_text response) = Ok env" "env_error env = None"
      "env_result env = Value result" and page: "page = page_of result h (fst (env_utc_secs E (sy_world s1)))"
    then have "env_decode_signatures E (rh_body_text response) =
        Ok \<lparr>env_result = Value result, env_error = None\<rparr>" by (cases env) simp
    with page p show ?thesis by blast
  qed
qed simp

lemma signatures_loop_page:
  "get_signatures_loop E api address body h as s = Some (Ok page, s') \<Longrightarrow>
   \<exists>text result now. env_decode_signatures E text = Ok \<lparr>env_result = Value result, env_error = None\<rparr>
     \<and> page = page_of result h now"
  by (drule signatures_loop_reply) blast

section \<open>Termination\<close>

text \<open>Nothing keeps the client from going on for ever: the other tasks extend no cooldown past some
  moment, and the semaphore has permits and hands them out.\<close>

definition unhindered :: "'w env \<Rightarrow> helius_api \<Rightarrow> bool" where
  "unhindered E api \<longleftrightarrow> cooldowns_bounded E \<and> grants_permits E \<and> 0 < ha_max_concurrent api"

lemma send_returns:
  assumes "unhindered E api"
  obtains r s' where "send_rpc_request E api body s = Some (r, s')"
proof -
  obtain p s1 where "acquire_request_slot E api s = Some (p, s1)"
    using acquire_returns assms unfolding unhindered_def by blast
  then have "\<exists>x. send_rpc_request E api body s = Some x"
    by (simp add: send_rpc_request_def Let_def case_prod_beta split: sum.split)
  with that show thesis by auto
qed

lemma signatures_loop_returns:
  assumes "unhindered E api" and "log_safe E address"
  shows "\<exists>x. get_signatures_loop E api address body h as s = Some x"
proof (induction as arbitrary: s)
  case (Cons a as)
  obtain p s1 where "send_rpc_request E api body s = Some (p, s1)" using send_returns [OF assms(1)] by blast
  with Cons show ?case
    by (simp add: Let_def case_prod_beta log_safe_masked [OF assms(2)] split: sum.split option.split response_field.split)
qed simp

lemma get_signatures_returns:
  assumes "unhindered E api" and "log_safe E address"
  obtains r s' where "get_signatures E api address before h s = Some (r, s')"
proof -
  obtain x where "get_signatures_loop E api address (signatures_body address before) h (attempts api) s = Some x"
    using signatures_loop_returns [OF assms] by blast
  then have "get_signatures E api address before h s = Some x"
    by (simp add: get_signatures_def log_safe_masked [OF assms(2)])
  with that show thesis by (cases x) simp
qed

lemma fetch_returns:
  assumes "unhindered E api" and "log_safe E sig"
  shows "\<exists>x. fetch_transaction_by_signature E api sig s = Some x"
proof -
  have "\<exists>x. fetch_transaction_loop E api sig prev as s = Some x" for prev as
  proof (induction as arbitrary: s prev)
    case (Cons a as)
    obtain p s1 where "send_rpc_request E api (transaction_body sig) s = Some (p, s1)"
      using send_returns [OF assms(1)] by blast
    with Cons show ?case
      by (simp add: try_fetch_transaction_once_def Let_def case_prod_beta log_safe_masked [OF assms(2)]
          split: sum.split fetch_attempt.split)
  qed simp
  then show ?thesis by (simp add: fetch_transaction_by_signature_def)
qed

text \<open>A failure carries the signature it was for.\<close>

fun names_failure :: "string \<Rightarrow> tx_outcome \<Rightarrow> bool" where
  "names_failure sig (OutcomeSuccess sig' tx) \<longleftrightarrow> True"
| "names_failure sig (OutcomeFailed e) \<longleftrightarrow> fe_signature e = sig"

lemma fetch_names_failure:
  assumes "fetch_transaction_by_signature E api sig s = Some (out, s')"
  shows "names_failure sig out"
proof -
  have "names_failure sig out"
    if "fetch_transaction_loop E api sig prev as s = Some (out, s')" "\<forall>e. prev = Some e \<longrightarrow> fe_signature e = sig"
    for prev as
    using that
  proof (induction as arbitrary: s prev)
    case Nil
    then show ?case by (auto split: option.splits)
  next
    case (Cons a as)
    from Cons.prems obtain p s1 where p: "try_fetch_transaction_once E api sig (transaction_body sig) s = Some (p, s1)"
      by (auto simp: bind_eq_Some_conv)
    from p have "(\<exists>m. p = AttemptFatal \<lparr>fe_signature = sig, fe_status_code = None, fe_rpc_code = None, fe_message = m\<rparr>)
        \<or> (\<exists>response. p = classify_reply E sig response)"
    proof -
      from p obtain q s2 where q: "send_rpc_request E api (transaction_body sig) s = Some (q, s2)"
        by (auto simp: try_fetch_transaction_once_def bind_eq_Some_conv)
      with p show ?thesis by (cases q) (auto simp: try_fetch_transaction_once_def)
    qed
    then have sig: "fe_signature e = sig" if "p = AttemptFatal e \<or> p = AttemptRateLimited e ra" for e ra
      using that classify_signature [of E sig _ e ra, THEN conjunct1] by auto
    from Cons.prems(1) p consider e where "p = AttemptFatal e" "out = OutcomeFailed e"
      | e ra where "p = AttemptRateLimited e ra" "out = OutcomeFailed e"
      | e ra where "p = AttemptRateLimited e ra"
          "fetch_transaction_loop E api sig (Some e) as (snd (register_rate_limit E ra s1)) = Some (out, s')"
      | tx where "out = OutcomeSuccess sig tx"
      by (cases p) (auto simp: Let_def case_prod_beta split: if_splits)
    then show ?case
    proof cases
      case (3 e ra)
      then show ?thesis using sig by (intro Cons.IH [OF 3(2)]) auto
    qed (use sig in auto)
  qed
  then show ?thesis using assms unfolding fetch_transaction_by_signature_def by blast
qed

lemma failures_named:
  "list_all2 names_failure sigs os \<Longrightarrow> e \<in> set (failures os) \<Longrightarrow> fe_signature e \<in> set sigs"
proof (induction sigs os rule: list_all2_induct)
  case (Cons sig sigs out os)
  then show ?case by (cases out) auto
qed simp

lemma log_first_error_safe:
  "list_all (\<lambda>e. log_safe E (fe_signature e)) es \<Longrightarrow> log_first_error E es = Some ()"
  by (cases es) (simp_all add: log_first_error_def log_safe_masked)

lemma fetch_outcomes_returns:
  assumes "unhindered E api" and "list_all (log_safe E) sigs"
  shows "\<exists>os s'. fetch_outcomes E api sigs s = Some (os, s') \<and> list_all (\<lambda>e. log_safe E (fe_signature e)) (failures os)"
proof -
  have "\<exists>x. fetch_outcomes E api sigs s = Some x"
    using assms(2)
  proof (induction sigs arbitrary: s)
    case (Cons sig sigs)
    obtain x where "fetch_transaction_by_signature E api sig s = Some x"
      using fetch_returns [OF assms(1)] Cons.prems by fastforce
    moreover obtain y where "fetch_outcomes E api sigs (snd x) = Some y" using Cons by force
    ultimately show ?case by (simp add: case_prod_beta)
  qed simp
  then obtain os s' where os: "fetch_outcomes E api sigs s = Some (os, s')" by auto
  have "list_all2 names_failure sigs os"
    by (rule fetch_outcomes_all2 [OF _ os]) (rule fetch_names_failure)
  from failures_named [OF this] assms(2) os show ?thesis by (auto simp: list_all_iff)
qed

lemma get_transaction_loop_returns:
  assumes "unhindered E api"
  shows "list_all (log_safe E) (concat cs) \<Longrightarrow> list_all (\<lambda>e. log_safe E (fe_signature e)) (tb_errors acc) \<Longrightarrow>
    \<exists>b s'. get_transaction_loop E api cs acc s = Some (b, s') \<and> list_all (\<lambda>e. log_safe E (fe_signature e)) (tb_errors b)"
proof (induction cs arbitrary: s acc)
  case (Cons c cs)
  from Cons.prems(1) have "list_all (log_safe E) c" by simp
  with fetch_outcomes_returns [OF assms] obtain os s1 where os: "fetch_outcomes E api c s = Some (os, s1)"
    "list_all (\<lambda>e. log_safe E (fe_signature e)) (failures os)" by blast
  then have chunk: "fetch_transaction_chunk E api c s = Some (batch_of id os, s1)"
    by (simp add: fetch_transaction_chunk_def foldl_push append_batch_def empty_batch_def batch_of_def
        log_first_error_safe Let_def)
  show ?case
    by (simp add: chunk Let_def) (use Cons os(2) in \<open>auto simp: append_batch_def batch_of_def intro!: Cons.IH\<close>)
qed simp

lemma get_transaction_returns:
  assumes "unhindered E api" and "list_all (log_safe E) sigs"
  obtains b s' where "get_transaction E api sigs s = Some (Ok b, s')"
proof -
  have "list_all (log_safe E) (concat (chunks 10 sigs))" using assms(2) by simp
  then obtain b s' where "get_transaction_loop E api (chunks 10 sigs) empty_batch s = Some (b, s')"
    "list_all (\<lambda>e. log_safe E (fe_signature e)) (tb_errors b)"
    using get_transaction_loop_returns [OF assms(1), of "chunks 10 sigs" empty_batch s]
    by (auto simp: empty_batch_def)
  then have "get_transaction E api sigs s = Some (Ok b, s')"
    by (simp add: get_transaction_def log_first_error_safe)
  with that show thesis by blast
qed

section \<open>A scripted exchange\<close>

lemma script_api_fit: "retries_fit script_api"
  by (simp add: retries_fit_def script_api_def)

lemma script_api_retries [simp]: "ha_max_rate_limit_retries script_api = 1"
  by (simp add: script_api_def)

lemma script_unhindered [simp]: "unhindered script_env script_api"
  by (simp add: unhindered_def alone_bounded)

lemma script_log_safe [simp]: "log_safe script_env sig \<longleftrightarrow> mask_addr sig \<noteq> None"
  by (simp add: log_safe_def)

lemma script_attempts: "attempts script_api = [1, 2]"
  by (simp add: attempts_def upt_rec)

lemma send_script:
  "send_rpc_request script_env script_api body \<lparr>sy_world = (r # rs, given), sy_clock = n,
      sy_limiter = \<lparr>lm_backoff = b, lm_until = u, lm_last = x\<rparr>, sy_db = d\<rparr> =
   Some (Ok \<lparr>rh_status = fst r, rh_retry_after = None, rh_body_text = snd r\<rparr>,
     \<lparr>sy_world = (rs, r # given), sy_clock = (case u of None \<Rightarrow> n | Some v \<Rightarrow> max v n), sy_limiter = \<lparr>lm_backoff = b, lm_until = None, lm_last = x\<rparr>,
      sy_db = d\<rparr>)"
  by (cases u) (simp_all add: send_rpc_request_def acquire_script script_send_def script_text_def utc_now_def
        parse_retry_after_at_def)

lemma register_script:
  "register_rate_limit script_env None \<lparr>sy_world = w, sy_clock = n,
      sy_limiter = \<lparr>lm_backoff = b, lm_until = None, lm_last = x\<rparr>, sy_db = d\<rparr> =
   (let delay = fst (step_and_get_sleep_duration (\<lambda>_. Finite 0) b)
    in (delay, \<lparr>sy_world = w, sy_clock = n,
          sy_limiter = \<lparr>lm_backoff = snd (step_and_get_sleep_duration (\<lambda>_. Finite 0) b),
            lm_until = Some (if n + delay < instant_limit then n + delay else n), lm_last = Some n\<rparr>,
          sy_db = d\<rparr>))"
  by (simp add: register_rate_limit_def draw_backoff_def checked_add_def Let_def case_prod_beta)

lemma script_counts: "counts_requests script_env (\<lambda>w. length (snd w))"
  by (simp add: counts_requests_def script_send_def script_text_def split: list.split)

lemma script_batch:
  "get_transaction script_env script_api [''s1'', ''s2''] (script_start d [(200, ''tx''), (200, ''null'')]) =
     Some (Ok \<lparr>tb_transactions = [calculate_token_transfer (\<lambda>x _. x)
                  \<lparr>tr_result = tr_result sample_transaction, tr_token_transfer_changes = []\<rparr>],
               tb_processed_signatures = [''s1''], tb_failed_signatures = [''s2''],
               tb_errors = [\<lparr>fe_signature = ''s2'', fe_status_code = Some 200, fe_rpc_code = None,
                            fe_message = ''rpc result is null''\<rparr>]\<rparr>,
       (script_start d [])\<lparr>sy_world := ([], [(200, ''null''), (200, ''tx'')]), sy_clock := 100000000,
         sy_limiter := \<lparr>lm_backoff = reset_backoff (new_backoff (Finite 500) (Finite 10000) (Finite 2)),
           lm_until = None, lm_last = None\<rparr>\<rparr>)"
  by (simp add: get_transaction_def chunks_step script_start_def fetch_transaction_chunk_def
        fetch_transaction_by_signature_def script_attempts try_fetch_transaction_once_def send_script
        classify_reply_def script_envelope_def reset_rate_limit_backoff_if_idle_def Let_def
        log_first_error_def empty_batch_def append_batch_def)

section \<open>Properties\<close>

text \<open>C32: a batch of transactions accounts for every signature it was asked for: each one is reported
  exactly once, in the order asked, as processed or as failed; there is one transaction per processed
  signature, decoded from a reply without an error and with its events extracted; and every failure
  is a transport failure or the classification of a reply.\<close>

theorem batch_accounts:
  assumes "retries_fit api" and "get_transaction E api sigs s = Some (r, s')"
  shows "(case r of
            Err _ \<Rightarrow> False
          | Ok b \<Rightarrow>
              mset (tb_processed_signatures b) + mset (tb_failed_signatures b) = mset sigs
              \<and> subseq (tb_processed_signatures b) sigs \<and> subseq (tb_failed_signatures b) sigs
              \<and> length (tb_transactions b) = length (tb_processed_signatures b)
              \<and> tb_failed_signatures b = map fe_signature (tb_errors b)
              \<and> list_all (\<lambda>e. outcome_sound E (fe_signature e) (OutcomeFailed e)) (tb_errors b)
              \<and> list_all (\<lambda>tx. \<exists>sig tx0. outcome_sound E sig (OutcomeSuccess sig tx0)
                    \<and> tx = calculate_token_transfer (env_pow_f64 E) tx0) (tb_transactions b))"
proof -
  from get_transaction_batch [OF fetch_sound [OF assms(1)] assms(2)] obtain os where
    os: "list_all2 (outcome_sound E) sigs os" and
    r: "r = Ok (batch_of (calculate_token_transfer (env_pow_f64 E)) os)" .
  have "list_all (\<lambda>e. outcome_sound E (fe_signature e) (OutcomeFailed e)) (failures os)"
    using failures_explained [OF os] by (simp only: list_all_iff) blast
  moreover have "list_all (\<lambda>tx. \<exists>sig tx0. outcome_sound E sig (OutcomeSuccess sig tx0)
      \<and> tx = calculate_token_transfer (env_pow_f64 E) tx0)
      (map (calculate_token_transfer (env_pow_f64 E) \<circ> snd) (successes os))"
    unfolding list_all_iff set_map
  proof (intro ballI, elim imageE)
    fix tx p assume "p \<in> set (successes os)" "tx = (calculate_token_transfer (env_pow_f64 E) \<circ> snd) p"
    then show "\<exists>sig tx0. outcome_sound E sig (OutcomeSuccess sig tx0)
        \<and> tx = calculate_token_transfer (env_pow_f64 E) tx0"
      using successes_decoded [OF os, of "fst p" "snd p"] by (intro exI [of _ "fst p"] exI [of _ "snd p"]) simp
  qed
  ultimately show ?thesis
    using outcomes_mset [OF os] outcomes_subseq [OF os] by (simp add: r batch_of_def)
qed

theorem batch_accounts_witness:
  "mset [''s1''] + mset [''s2''] = mset [''s1'', ''s2'']
   \<and> outcome_sound script_env ''s2'' (OutcomeFailed \<lparr>fe_signature = ''s2'', fe_status_code = Some 200,
        fe_rpc_code = None, fe_message = ''rpc result is null''\<rparr>)"
  using batch_accounts [OF script_api_fit script_batch [of "small_db ''indexing'' False"]]
  by (simp del: outcome_sound.simps)

text \<open>C39: the request budget holds: one page of signatures costs at most \<open>max_rate_limit_retries + 1\<close>
  requests, a batch of transactions at most that many for each signature.\<close>

theorem request_budget:
  assumes "counts_requests E c"
    and "get_signatures E api address before hours s = Some (r, s1)"
    and "get_transaction E api sigs s1 = Some (b, s2)"
  shows "sent c s1 \<le> sent c s + (ha_max_rate_limit_retries api + 1)
       \<and> sent c s2 \<le> sent c s1 + length sigs * (ha_max_rate_limit_retries api + 1)"
proof -
  have "sent c s1 \<le> sent c s + (ha_max_rate_limit_retries api + 1)"
    using sent_signatures_loop [OF assms(1)] assms(2) attempts_length [of api]
    by (fastforce simp: get_signatures_def)
  moreover have "sent c s2 \<le> sent c s1 + length sigs * (ha_max_rate_limit_retries api + 1)"
    using assms(3) sent_transactions [OF assms(1), of api "chunks 10 sigs"]
    by (auto simp: get_transaction_def bind_eq_Some_conv)
  ultimately show ?thesis by simp
qed

theorem request_budget_witness:
  "\<exists>s1 b s2. get_transaction script_env script_api [''s1''] s1 = Some (b, s2)
     \<and> sent (\<lambda>w. length (snd w)) s2 \<le> sent (\<lambda>w. length (snd w)) s1 + 2"
proof -
  let ?s = "script_start (small_db ''indexing'' False) [(200, ''one''), (200, ''tx'')]"
  have safe: "log_safe script_env ''owner''" "list_all (log_safe script_env) [''s1'']" by simp_all
  obtain r s1 where x: "get_signatures script_env script_api ''owner'' None 1 ?s = Some (r, s1)"
    by (rule get_signatures_returns [OF script_unhindered safe(1)])
  obtain b s2 where y: "get_transaction script_env script_api [''s1''] s1 = Some (Ok b, s2)"
    by (rule get_transaction_returns [OF script_unhindered safe(2)])
  from request_budget [OF script_counts x y] y show ?thesis
    by (intro exI [of _ s1] exI [of _ "Ok b"] exI [of _ s2]) simp
qed

text \<open>C38: the calls of the client return: when the other tasks extend no cooldown past some
  moment, the semaphore has permits and hands them out, and the address and the signatures can be masked
  for the log, both calls return, whatever the service answers, and neither touches the tables. A batch is
  returned with a result, never with an error of its own.\<close>

theorem client_returns:
  assumes "unhindered E api" and "log_safe E address" and "list_all (log_safe E) sigs"
  shows "(\<exists>r s'. get_signatures E api address before hours s = Some (r, s') \<and> sy_db s' = sy_db s)
       \<and> (\<exists>b s'. get_transaction E api sigs s = Some (Ok b, s') \<and> sy_db s' = sy_db s)"
proof -
  obtain r s1 where x: "get_signatures E api address before hours s = Some (r, s1)"
    by (rule get_signatures_returns [OF assms(1,2)])
  obtain b s2 where y: "get_transaction E api sigs s = Some (Ok b, s2)"
    by (rule get_transaction_returns [OF assms(1,3)])
  from x y get_signatures_db [OF x] get_transaction_db [OF y] show ?thesis by blast
qed

theorem client_returns_witness:
  "\<exists>r s'. get_signatures script_env script_api ''owner'' None 1
     (script_start (small_db ''indexing'' False) [(500, ''oops'')]) = Some (r, s')
     \<and> sy_db s' = small_db ''indexing'' False"
  using client_returns [OF script_unhindered, of "''owner''" "[''s1'']" None 1
      "script_start (small_db ''indexing'' False) [(500, ''oops'')]"]
  by (simp add: script_start_def)

text \<open>Without its hypotheses it fails: a client made for no concurrent request never gets a page, and a
  batch whose first failure cannot be masked brings the task down.\<close>

lemma no_permit_no_page:
  assumes "ha_max_concurrent api = 0" and "\<And>w. env_acquire E 0 w = None" and "attempts api \<noteq> []"
  shows "get_signatures E api address before hours s = None"
  using assms(3) no_permit_blocks [OF assms(1,2)]
  by (cases "attempts api"; cases "log_masked (env_client_info E) address")
     (simp_all add: get_signatures_def send_rpc_request_def)

lemma unmaskable_failure_fatal:
  assumes "fetch_outcomes E api sigs s = Some (OutcomeFailed e # os, s')" and "env_client_warn E"
    and "mask_addr (fe_signature e) = None"
  shows "fetch_transaction_chunk E api sigs s = None"
  using assms(2,3)
  by (simp add: fetch_transaction_chunk_def assms(1) foldl_push append_batch_def empty_batch_def batch_of_def
      log_first_error_def log_masked_def Let_def)

text \<open>A page that is returned comes from a reply without an error: its raw count and last
  signature are those of the whole reply, its signatures those of the reply inside the window.\<close>

theorem page_from_reply:
  assumes "get_signatures E api address before hours s = Some (Ok page, s')"
  shows "\<exists>text result now.
           env_decode_signatures E text = Ok \<lparr>env_result = Value result, env_error = None\<rparr>
           \<and> sp_raw_count page = length result
           \<and> sp_last_signature page = (if result = [] then None else Some (sig_signature (last result)))
           \<and> resp_result (sp_response page) = rs_signatures (take_recent_signatures_at result hours now)
           \<and> sp_reached_cutoff page = rs_reached_cutoff (take_recent_signatures_at result hours now)"
  using signatures_loop_page [of E api address "signatures_body address before" hours "attempts api" s page s'] assms
  by (force simp: get_signatures_def)

theorem page_from_reply_witness:
  "\<exists>text result. env_decode_signatures script_env text = Ok \<lparr>env_result = Value result, env_error = None\<rparr>
     \<and> length result = 1"
proof -
  let ?s = "script_start (small_db ''indexing'' False) [(429, ''limited''), (200, ''one'')]"
  let ?result = "[\<lparr>sig_block_time = Some 1800, sig_signature = ''s1''\<rparr>]"
  obtain x where x: "get_signatures script_env script_api ''owner'' None 1 ?s = Some (Ok (page_of ?result 1 3600), x)"
    by (simp add: get_signatures_def script_attempts script_start_def send_script script_signatures_def
        rpc_error_is_rate_limited_def register_script utc_now_def
        reset_rate_limit_backoff_if_idle_def Let_def)
  from page_from_reply [OF x] obtain bod result where
    "env_decode_signatures script_env bod = Ok \<lparr>env_result = Value result, env_error = None\<rparr>"
    "sp_raw_count (page_of ?result 1 3600) = length result" by blast
  then show ?thesis by (intro exI [of _ bod] exI [of _ result]) simp
qed

text \<open>On an HTTP 429 whose body is a JSON-RPC error that does not itself speak of a rate limit,
  \<open>getTransaction\<close> is retried while \<open>getSignaturesForAddress\<close> fails at once, however many retries are
  left.\<close>

theorem http_429_json_error:
  assumes "rh_status response = 429" and "\<not> rpc_error_is_rate_limited e"
    and "env_decode_envelope E (rh_body_text response) = Ok \<lparr>env_result = res, env_error = Some e\<rparr>"
    and "env_decode_signatures E (rh_body_text response) = Ok \<lparr>env_result = res', env_error = Some e\<rparr>"
    and "send_rpc_request E api body s = Some (Ok response, s1)"
  shows "(\<exists>err. classify_reply E sig response = AttemptRateLimited err (rh_retry_after response))
       \<and> (\<exists>msg. get_signatures_loop E api address body hours (attempt # rest) s = Some (Err msg, s1))"
  using assms by (simp add: classify_reply_def fetch_error_is_rate_limited_def Let_def)

theorem http_429_json_error_witness:
  "\<exists>s s1 msg. send_rpc_request script_env script_api JNull s =
       Some (Ok \<lparr>rh_status = 429, rh_retry_after = None, rh_body_text = ''busy''\<rparr>, s1)
     \<and> get_signatures_loop script_env script_api ''owner'' JNull 1 [1, 2] s = Some (Err msg, s1)"
proof -
  let ?s = "script_start (small_db ''indexing'' False) [(429, ''busy'')]"
  let ?r = "\<lparr>rh_status = 429, rh_retry_after = None, rh_body_text = ''busy''\<rparr>"
  obtain s1 where s1: "send_rpc_request script_env script_api JNull ?s = Some (Ok ?r, s1)"
    by (simp add: script_start_def send_script)
  have "\<not> rpc_error_is_rate_limited \<lparr>err_code = - 32000, err_message = ''busy''\<rparr>"
    by (simp add: rpc_error_is_rate_limited_def is_rate_limited_def to_ascii_lowercase_def)
  then obtain msg where "get_signatures_loop script_env script_api ''owner'' JNull 1 [1, 2] ?s = Some (Err msg, s1)"
    using http_429_json_error [of ?r "\<lparr>err_code = - 32000, err_message = ''busy''\<rparr>" script_env Missing Missing
        script_api JNull ?s s1 "''s1''" "''owner''" 1 1 "[2]"] s1
    by (auto simp: script_envelope_def script_signatures_def simp del: get_signatures_loop.simps)
  with s1 show ?thesis by blast
qed

text \<open>The decimal form of \<open>retry-after\<close>, padded with white space, yields exactly its seconds when
  they fit a \<open>u64\<close> and nothing otherwise; a value that reads as a date yields the seconds left until
  it, none when it has passed.\<close>

theorem retry_after_value:
  assumes "header_text h = Some (a @ value @ b)" and "list_all is_ascii_space a"
    and "list_all is_ascii_space b" and "list_all (\<lambda>c. \<not> is_ascii_space c) value" and "value \<noteq> []"
  shows "(\<forall>date. rfc2822 value = Some date \<longrightarrow>
            parse_retry_after_at header_text rfc2822 (Some h) now = Some (from_secs (nat (date - now))))
       \<and> (\<forall>n. rfc2822 value = None \<and> value = show_nat n \<longrightarrow>
            parse_retry_after_at header_text rfc2822 (Some h) now =
              (if n < 2 ^ 64 then Some (from_secs n) else None))"
proof -
  have trim: "str_trim (a @ value @ b) = value" by (rule str_trim_pad [OF assms(2-5)])
  have "parse_unsigned 64 (show_nat n) = (if n < 2 ^ 64 then Some n else None)" for n
  proof (cases "n < 2 ^ 64")
    case True
    then show ?thesis using parse_unsigned_digits [OF parse_digits_show_nat] by simp
  next
    case False
    moreover have "hd (show_nat n) \<noteq> CHR ''+''"
      using parse_digits_show_nat [of n] show_nat_nonempty [of n]
      by (cases "show_nat n") (auto dest: parse_digits_head)
    ultimately show ?thesis
      using parse_digits_show_nat [of n] show_nat_nonempty [of n]
      by (cases "show_nat n") (auto simp: parse_unsigned_def)
  qed
  then show ?thesis using trim by (auto simp: parse_retry_after_at_def assms(1) Let_def)
qed

theorem retry_after_value_witness:
  "parse_retry_after_at Some (\<lambda>_. None) (Some '' 120'') 0 = Some 120000000000"
proof -
  have dec: "''120'' = show_nat 120" by code_simp
  have p: "Some '' 120'' = Some ('' '' @ ''120'' @ [])" "list_all is_ascii_space '' ''"
    "list_all is_ascii_space []" "list_all (\<lambda>c. \<not> is_ascii_space c) ''120''" "''120'' \<noteq> []"
    by (simp_all add: is_ascii_space_def)
  have "parse_retry_after_at Some (\<lambda>_. None) (Some '' 120'') 0 =
      (if 120 < (2 :: nat) ^ 64 then Some (from_secs 120) else None)"
    by (rule retry_after_value [of Some "'' 120''" "'' ''" "''120''" "[]" "\<lambda>_. None" 0, OF p, THEN conjunct2, rule_format]) (rule conjI [OF refl dec])
  then show ?thesis by (simp add: from_secs_def)
qed

end
