(* ===== verification/Database.thy ===== *)
theory Database
  imports ClientProps
begin

text \<open>
  The database facade of \<open>src/db.rs\<close> and the parts of \<open>src/db/*.rs\<close> around the statements: early
  returns, the two inserts of a save, and the connection loop with its backoff.
\<close>

section \<open>The operations\<close>

record save_stats =
  ss_transactions :: nat
  ss_token_transfers :: nat

definition claim_pending_job :: "'w env \<Rightarrow> nat \<Rightarrow> 'w sys \<Rightarrow> claimed_job option result \<times> 'w sys" where
  "claim_pending_job E worker_id s = run_db E (claim_pending_job_stmt worker_id) s"

definition update_processing_status_by_job_id ::
    "'w env \<Rightarrow> i64 \<Rightarrow> string \<Rightarrow> 'w sys \<Rightarrow> nat result \<times> 'w sys" where
  "update_processing_status_by_job_id E job_id status s =
     run_db E (update_processing_status_stmt job_id status) s"

definition get_job_info :: "'w env \<Rightarrow> i64 \<Rightarrow> 'w sys \<Rightarrow> job_info option result \<times> 'w sys" where
  "get_job_info E job_id s = run_db E (get_job_info_stmt job_id) s"

definition create_processing_job ::
    "'w env \<Rightarrow> string \<Rightarrow> i16 \<Rightarrow> i16 \<Rightarrow> 'w sys \<Rightarrow> i64 option result \<times> 'w sys" where
  "create_processing_job E address tx_limit requested_hours s =
     run_db E (create_processing_job_stmt address tx_limit requested_hours) s"

definition get_unprocessed_signatures ::
    "'w env \<Rightarrow> string \<Rightarrow> i64 \<Rightarrow> 'w sys \<Rightarrow> string list result \<times> 'w sys" where
  "get_unprocessed_signatures E address limit s =
     run_db E (get_unprocessed_signatures_stmt address limit) s"

definition mark_signatures_processed ::
    "'w env \<Rightarrow> string \<Rightarrow> string list \<Rightarrow> 'w sys \<Rightarrow> nat result \<times> 'w sys" where
  "mark_signatures_processed E address sigs s =
     (if sigs = [] then (Ok 0, s) else run_db E (mark_signatures_processed_stmt address sigs) s)"

definition write_signatures :: "'w env \<Rightarrow> rpc_response \<Rightarrow> string \<Rightarrow> 'w sys \<Rightarrow> nat result \<times> 'w sys" where
  "write_signatures E response address s =
     (if resp_result response = [] then (Ok 0, s)
      else run_db_bound E (3 * length (resp_result response))
             (write_signatures_stmt (resp_result response) address) s)"

definition write_transaction_info ::
    "'w env \<Rightarrow> transaction_result list \<Rightarrow> string \<Rightarrow> 'w sys \<Rightarrow> nat result \<times> 'w sys" where
  "write_transaction_info E txs tracked_owner s =
     (if txs = [] then (Ok 0, s)
      else run_db_bound E (9 * length txs) (write_transaction_info_stmt txs tracked_owner) s)"

definition write_token_transfers ::
    "'w env \<Rightarrow> transaction_result list \<Rightarrow> string \<Rightarrow> 'w sys \<Rightarrow> nat result \<times> 'w sys" where
  "write_token_transfers E txs tracked_owner s =
     (let rows = transfer_rows txs
      in if rows = [] then (Ok 0, s)
         else run_db_bound E (19 * length rows)
                (write_token_transfers_stmt (env_from_f64 E) rows tracked_owner) s)"

definition save_transaction_data ::
    "'w env \<Rightarrow> transaction_result list \<Rightarrow> string \<Rightarrow> 'w sys \<Rightarrow> save_stats result \<times> 'w sys" where
  "save_transaction_data E txs address s =
     (if txs = [] then (Ok \<lparr>ss_transactions = 0, ss_token_transfers = 0\<rparr>, s)
      else case write_transaction_info E txs address s of
             (Err e, s) \<Rightarrow> (Err e, s)
           | (Ok n, s) \<Rightarrow>
               (case write_token_transfers E txs address s of
                  (Err e, s) \<Rightarrow> (Err e, s)
                | (Ok m, s) \<Rightarrow> (Ok \<lparr>ss_transactions = n, ss_token_transfers = m\<rparr>, s)))"

section \<open>Connecting\<close>

text \<open>\<open>connect\<close> is one attempt of the pool to connect.\<close>

definition max_connect_retries :: nat where
  "max_connect_retries = 5"

function connect_loop ::
    "('w \<Rightarrow> unit result \<times> 'w) \<Rightarrow> 'w env \<Rightarrow> nat \<Rightarrow> worker_backoff \<Rightarrow> 'w sys \<Rightarrow> unit result \<times> 'w sys" where
  "connect_loop connect E retry_count backoff s =
     (let (r, w) = connect (sy_world s);
          s = elapse E (s\<lparr>sy_world := w\<rparr>)
      in case r of
           Ok _ \<Rightarrow> (Ok (), s)
         | Err err \<Rightarrow>
             if retry_count < max_connect_retries
             then let (sample, w) = env_sample E (sy_world s);
                      (delay, backoff) = step_and_get_sleep_duration sample backoff
                  in connect_loop connect E (retry_count + 1) backoff (sleep E delay (s\<lparr>sy_world := w\<rparr>))
             else (Err (''failed to connect to database after '' @ show_nat (retry_count + 1) @ '' attempts''), s))"
  by pat_completeness auto
termination
  by (relation "measure (\<lambda>(connect, E, n, b, s). max_connect_retries - n)") auto

declare connect_loop.simps [simp del]

lemma connect_loop_refused:
  assumes "connect (sy_world s) = (Err e, w)" and "s1 = elapse E (s\<lparr>sy_world := w\<rparr>)"
    and "st = step_and_get_sleep_duration (fst (env_sample E (sy_world s1))) b"
  shows "n < max_connect_retries \<Longrightarrow> connect_loop connect E n b s =
           connect_loop connect E (n + 1) (snd st)
             (sleep E (fst st) (s1\<lparr>sy_world := snd (env_sample E (sy_world s1))\<rparr>))"
    and "\<not> n < max_connect_retries \<Longrightarrow> connect_loop connect E n b s =
           (Err (''failed to connect to database after '' @ show_nat (n + 1) @ '' attempts''), s1)"
  by (subst connect_loop.simps, simp add: assms Let_def case_prod_beta)+

lemma connect_loop_accepted:
  assumes "connect (sy_world s) = (Ok (), w)"
  shows "connect_loop connect E n b s = (Ok (), elapse E (s\<lparr>sy_world := w\<rparr>))"
  by (subst connect_loop.simps) (simp add: assms Let_def)

definition database_new :: "('w \<Rightarrow> unit result \<times> 'w) \<Rightarrow> 'w env \<Rightarrow> 'w sys \<Rightarrow> unit result \<times> 'w sys" where
  "database_new connect E s =
     connect_loop connect E 0 (new_backoff (Finite 500) (Finite 5000) (Finite 2)) s"

text \<open>\<open>run_migrations\<close> is the migrator of the database library.\<close>

definition migrate_database :: "('w sys \<Rightarrow> unit result \<times> 'w sys) \<Rightarrow> 'w sys \<Rightarrow> unit result \<times> 'w sys" where
  "migrate_database run_migrations s =
     (case run_migrations s of
        (Err e, s) \<Rightarrow> (Err ''failed to run database migrations'', s)
      | (Ok _, s) \<Rightarrow> (Ok (), s))"

section \<open>What every statement of the program keeps\<close>

text \<open>Nothing that was stored or processed is ever lost.\<close>

definition db_grows :: "db \<Rightarrow> db \<Rightarrow> bool" where
  "db_grows d d' \<longleftrightarrow>
     set (transactions d) \<subseteq> set (transactions d') \<and> set (token_transfers d) \<subseteq> set (token_transfers d')
     \<and> sig_key ` set (signatures d) \<subseteq> sig_key ` set (signatures d')
     \<and> (\<forall>a x. sig_processed d a x \<longrightarrow> sig_processed d' a x)"

lemma db_grows_refl [simp]: "db_grows d d"
  by (simp add: db_grows_def)

lemma db_grows_trans:
  assumes "db_grows d d'" and "db_grows d' d''"
  shows "db_grows d d''"
proof -
  note le = assms [unfolded db_grows_def, THEN conjunct1]
    assms [unfolded db_grows_def, THEN conjunct2, THEN conjunct1]
    assms [unfolded db_grows_def, THEN conjunct2, THEN conjunct2, THEN conjunct1]
  show ?thesis
    unfolding db_grows_def
    using subset_trans [OF le(1,2)] subset_trans [OF le(3,4)] subset_trans [OF le(5,6)] assms
    by (simp add: db_grows_def)
qed

lemma grows_jobs:
  "signatures d' = signatures d \<Longrightarrow> transactions d' = transactions d \<Longrightarrow> token_transfers d' = token_transfers d \<Longrightarrow>
   db_grows d d'"
  by (simp add: db_grows_def sig_processed_def)

lemma processed_cong: "signatures d' = signatures d \<Longrightarrow> sig_processed d' = sig_processed d"
  by (intro ext) (simp add: sig_processed_def)

lemma grows_claim_job: "db_grows d (snd (claim_pending_job_stmt w t d))"
  by (rule grows_jobs) (simp_all add: frame_simps)

lemma grows_status: "db_grows d (snd (update_processing_status_stmt i st t d))"
  by (rule grows_jobs) (simp_all add: frame_simps)

lemma grows_info: "db_grows d (snd (get_job_info_stmt i t d))"
  by (simp add: frame_simps)

lemma grows_create: "db_grows d (snd (create_processing_job_stmt a l h t d))"
  by (rule grows_jobs) (simp_all add: frame_simps)

lemma stmt_as_step:
  "snd (get_unprocessed_signatures_stmt a l t d) = sigs_step (Lease a l, t\<lparr>t_fault := None\<rparr>) d"
  "snd (mark_signatures_processed_stmt a ss t d) = sigs_step (Mark a ss, t\<lparr>t_fault := None\<rparr>) d"
  "snd (write_signatures_stmt p a t d) = sigs_step (Page p a, t\<lparr>t_fault := None\<rparr>) d"
  by (simp_all add: get_unprocessed_signatures_stmt_def chosen_sigs_def mark_signatures_processed_stmt_def
      write_signatures_stmt_def)

lemma grows_signatures:
  assumes "transactions d' = transactions d" and "token_transfers d' = token_transfers d"
    and "sig_key ` set (signatures d) \<subseteq> sig_key ` set (signatures d')"
    and "\<And>a x. sig_processed d a x \<Longrightarrow> sig_processed d' a x"
  shows "db_grows d d'"
  using assms by (simp add: db_grows_def)

lemma grows_lease: "db_grows d (snd (get_unprocessed_signatures_stmt a l t d))"
proof (rule grows_signatures)
  show "sig_key ` set (signatures d) \<subseteq> sig_key ` set (signatures (snd (get_unprocessed_signatures_stmt a l t d)))"
    using sigs_claim_keys [of a l t d] by (metis set_map subset_refl)
  show "\<And>b x. sig_processed d b x \<Longrightarrow> sig_processed (snd (get_unprocessed_signatures_stmt a l t d)) b x"
    unfolding stmt_as_step by (rule sigs_step_processed)
qed (simp_all only: frame_simps)

lemma grows_mark: "db_grows d (snd (mark_signatures_processed_stmt a ss t d))"
proof (rule grows_signatures)
  show "sig_key ` set (signatures d) \<subseteq> sig_key ` set (signatures (snd (mark_signatures_processed_stmt a ss t d)))"
    using mark_keys [of a ss t d] by (metis set_map subset_refl)
  show "\<And>b x. sig_processed d b x \<Longrightarrow> sig_processed (snd (mark_signatures_processed_stmt a ss t d)) b x"
    unfolding stmt_as_step by (rule sigs_step_processed)
qed (simp_all only: frame_simps)

lemma grows_page: "db_grows d (snd (write_signatures_stmt p a t d))"
proof (rule grows_signatures)
  show "sig_key ` set (signatures d) \<subseteq> sig_key ` set (signatures (snd (write_signatures_stmt p a t d)))"
    by (auto simp: write_signatures_rows sigtab.ins_keys)
  show "\<And>b x. sig_processed d b x \<Longrightarrow> sig_processed (snd (write_signatures_stmt p a t d)) b x"
    unfolding stmt_as_step by (rule sigs_step_processed)
qed (simp_all only: frame_simps)

lemma grows_txs: "db_grows d (snd (write_transaction_info_stmt txs a t d))"
  using processed_cong [of "snd (write_transaction_info_stmt txs a t d)" d] write_txs_keeps [of _ d txs a t]
  by (simp add: db_grows_def write_txs_frame subsetI)

lemma grows_transfers: "db_grows d (snd (write_token_transfers_stmt f ps a t d))"
  using processed_cong [of "snd (write_token_transfers_stmt f ps a t d)" d]
  by (simp add: db_grows_def write_transfers_frame write_transfers_set)

lemmas stmt_grows = grows_claim_job grows_status grows_info grows_create grows_lease grows_mark grows_page
  grows_txs grows_transfers

lemmas stmt_inv = claim_inv status_inv create_inv sigs_claim_inv mark_inv write_inv write_txs_inv
  write_transfers_inv

section \<open>Other tasks that run the same program\<close>

definition others_keep :: "'w env \<Rightarrow> (db \<Rightarrow> bool) \<Rightarrow> bool" where
  "others_keep E P \<longleftrightarrow> (\<forall>d w. P d \<longrightarrow> P (fst (env_db_turn E d w)))"

definition others_grow :: "'w env \<Rightarrow> bool" where
  "others_grow E \<longleftrightarrow> (\<forall>d w. db_grows d (fst (env_db_turn E d w)))"

lemma run_db_keeps:
  assumes "others_keep E P" and "\<And>t d. P d \<Longrightarrow> P (snd (stmt t d))" and "P (sy_db s)"
  shows "P (sy_db (snd (run_db E stmt s)))"
proof -
  obtain d t w where e: "env_db_turn E (sy_db s) (sy_world s) = (d, t, w)" by (rule prod_cases3)
  then have "P d" using assms(1,3) unfolding others_keep_def by (metis fst_conv)
  then have "P (snd (run_stmt t stmt d))" using run_stmt_state [of t stmt d] assms(2) by auto
  then show ?thesis by (simp add: run_db_def e case_prod_beta)
qed

lemma run_db_bound_keeps:
  assumes "others_keep E P" and "\<And>t d. P d \<Longrightarrow> P (snd (stmt t d))" and "P (sy_db s)"
  shows "P (sy_db (snd (run_db_bound E n stmt s)))"
  using run_db_keeps [OF assms] assms(3) by (simp add: run_db_bound_def)

lemma grow_keep: "others_grow E \<Longrightarrow> others_keep E (db_grows d)"
  unfolding others_keep_def others_grow_def using db_grows_trans by blast

text \<open>What each operation of the facade keeps, given that its statement does.\<close>

lemma facade_keeps:
  assumes "others_keep E P" and "P (sy_db s)"
  shows "(\<And>w t d. P d \<Longrightarrow> P (snd (claim_pending_job_stmt w t d))) \<Longrightarrow> P (sy_db (snd (claim_pending_job E w s)))"
    and "(\<And>t d. P d \<Longrightarrow> P (snd (update_processing_status_stmt i st t d))) \<Longrightarrow>
      P (sy_db (snd (update_processing_status_by_job_id E i st s)))"
    and "P (sy_db (snd (get_job_info E i s)))"
    and "(\<And>a l h t d. P d \<Longrightarrow> P (snd (create_processing_job_stmt a l h t d))) \<Longrightarrow>
      P (sy_db (snd (create_processing_job E a l h s)))"
    and "(\<And>a n t d. P d \<Longrightarrow> P (snd (get_unprocessed_signatures_stmt a n t d))) \<Longrightarrow>
      P (sy_db (snd (get_unprocessed_signatures E a n s)))"
    and "(\<And>a xs t d. P d \<Longrightarrow> P (snd (mark_signatures_processed_stmt a xs t d))) \<Longrightarrow>
      P (sy_db (snd (mark_signatures_processed E a xs s)))"
    and "(\<And>t d. P d \<Longrightarrow> P (snd (write_signatures_stmt (resp_result resp) a t d))) \<Longrightarrow>
      P (sy_db (snd (write_signatures E resp a s)))"
    and "(\<And>txs a t d. P d \<Longrightarrow> P (snd (write_transaction_info_stmt txs a t d))) \<Longrightarrow>
      P (sy_db (snd (write_transaction_info E txs a s)))"
    and "(\<And>ps a t d. P d \<Longrightarrow> P (snd (write_token_transfers_stmt (env_from_f64 E) ps a t d))) \<Longrightarrow>
      P (sy_db (snd (write_token_transfers E txs a s)))"
  unfolding claim_pending_job_def update_processing_status_by_job_id_def get_job_info_def
      create_processing_job_def get_unprocessed_signatures_def mark_signatures_processed_def
      write_signatures_def write_transaction_info_def write_token_transfers_def Let_def
  by (auto simp: frame_simps assms(2) split: if_split
      intro!: run_db_keeps [OF assms(1) _ assms(2)] run_db_bound_keeps [OF assms(1) _ assms(2)])

lemma facade_grows:
  assumes "others_grow E"
  shows "db_grows (sy_db s) (sy_db (snd (claim_pending_job E w s)))"
    and "db_grows (sy_db s) (sy_db (snd (update_processing_status_by_job_id E i st s)))"
    and "db_grows (sy_db s) (sy_db (snd (get_unprocessed_signatures E a n s)))"
    and "db_grows (sy_db s) (sy_db (snd (mark_signatures_processed E a xs s)))"
    and "db_grows (sy_db s) (sy_db (snd (write_signatures E resp a s)))"
    and "db_grows (sy_db s) (sy_db (snd (write_transaction_info E txs a s)))"
    and "db_grows (sy_db s) (sy_db (snd (write_token_transfers E txs a s)))"
  by (rule facade_keeps(1,2,5-9) [OF grow_keep [OF assms] db_grows_refl];
      rule db_grows_trans, assumption, rule stmt_grows)+

lemma save_cases:
  assumes "save_transaction_data E txs a s = (r, s')"
  obtains (empty) "txs = []" "s' = s"
    | (first) n where "txs \<noteq> []" "write_transaction_info E txs a s = (Err n, s')" "r = Err n"
    | (both) n s1 q where "txs \<noteq> []" "write_transaction_info E txs a s = (Ok n, s1)"
        "write_token_transfers E txs a s1 = (q, s')" "(\<exists>st. r = Ok st) \<longleftrightarrow> (\<exists>m. q = Ok m)"
  using assms
  by (auto simp: save_transaction_data_def split: if_splits prod.splits sum.splits)

lemma save_keeps:
  assumes "others_keep E P" and "P (sy_db s)"
    and "\<And>txs a t d. P d \<Longrightarrow> P (snd (write_transaction_info_stmt txs a t d))"
    and "\<And>ps a t d. P d \<Longrightarrow> P (snd (write_token_transfers_stmt (env_from_f64 E) ps a t d))"
  shows "P (sy_db (snd (save_transaction_data E txs a s)))"
proof -
  obtain r s' where s': "save_transaction_data E txs a s = (r, s')" by fastforce
  then show ?thesis
  proof (cases rule: save_cases)
    case (first n)
    then show ?thesis using facade_keeps(8) [OF assms(1,2,3), of txs a] s' by simp
  next
    case (both n s1 q)
    then show ?thesis
      using facade_keeps(8) [OF assms(1,2,3), of txs a] facade_keeps(9) [OF assms(1) _ assms(4), of s1 txs a] s'
      by simp
  qed (use s' assms(2) in simp)
qed

lemma save_grows:
  assumes "others_grow E"
  shows "db_grows (sy_db s) (sy_db (snd (save_transaction_data E txs a s)))"
proof -
  obtain r s' where s': "save_transaction_data E txs a s = (r, s')" by fastforce
  then show ?thesis
  proof (cases rule: save_cases)
    case (first n)
    then show ?thesis using facade_grows(6) [OF assms, of s txs a] s' by simp
  next
    case (both n s1 q)
    then show ?thesis
      using facade_grows(6) [OF assms, of s txs a] facade_grows(7) [OF assms, of s1 txs a] s'
      by (auto intro: db_grows_trans)
  qed (use s' in simp)
qed

section \<open>What a save stores\<close>

lemma run_db_bound_Ok:
  assumes "run_db_bound E n stmt s = (Ok x, s')"
  obtains d t w where "env_db_turn E (sy_db s) (sy_world s) = (d, t, w)" and "stmt t d = (Ok x, sy_db s')"
    and "n \<le> env_bind_limit E"
proof -
  from assms have "run_db E stmt s = (Ok x, s')" "n \<le> env_bind_limit E"
    by (auto simp: run_db_bound_def split: if_splits)
  with that show thesis by (metis run_db_Ok)
qed

text \<open>A transaction of an owner and all its events are in the tables.\<close>

definition tx_stored :: "'w env \<Rightarrow> db \<Rightarrow> string \<Rightarrow> transaction_result \<Rightarrow> bool" where
  "tx_stored E d a tx \<longleftrightarrow>
     (a, first_signature (tr_result tx)) \<in> tx_key ` set (transactions d)
     \<and> (\<forall>c \<in> set (tr_token_transfer_changes tx).
          new_transfer_row (env_from_f64 E) a (tr_result tx) c \<in> set (token_transfers d))"

lemma tx_stored_grows: "tx_stored E d a tx \<Longrightarrow> db_grows d d' \<Longrightarrow> tx_stored E d' a tx"
  unfolding tx_stored_def db_grows_def by (blast intro: imageI dest: subsetD)

lemma save_stores:
  assumes "others_grow E" and "save_transaction_data E txs a s = (Ok st, s')" and "tx \<in> set txs"
  shows "tx_stored E (sy_db s') a tx"
proof -
  from assms(2) obtain n s1 q where w1: "write_transaction_info E txs a s = (Ok n, s1)"
    and w2: "write_token_transfers E txs a s1 = (Ok q, s')"
    using assms(3) by (auto simp: save_transaction_data_def split: if_splits prod.splits sum.splits)
  from w1 assms(3) obtain d t where "write_transaction_info_stmt txs a t d = (Ok n, sy_db s1)"
    by (auto simp: write_transaction_info_def split: if_splits elim!: run_db_bound_Ok)
  with write_txs_present [OF assms(3), of a t d]
  have tx1: "(a, first_signature (tr_result tx)) \<in> tx_key ` set (transactions (sy_db s1))" by simp
  have "db_grows (sy_db s1) (sy_db s')" using facade_grows(7) [OF assms(1), of s1 txs a] w2 by simp
  with tx1 have "(a, first_signature (tr_result tx)) \<in> tx_key ` set (transactions (sy_db s'))"
    unfolding db_grows_def by (blast intro: imageI dest: subsetD)
  moreover have "new_transfer_row (env_from_f64 E) a (tr_result tx) c \<in> set (token_transfers (sy_db s'))"
    if c: "c \<in> set (tr_token_transfer_changes tx)" for c
  proof -
    have "(tr_result tx, c) \<in> set (transfer_rows txs)" using c assms(3) by (auto simp: transfer_rows_def)
    then have "new_transfer_row (env_from_f64 E) a (tr_result tx) c \<in>
        (\<lambda>(tx, c). new_transfer_row (env_from_f64 E) a tx c) ` set (transfer_rows txs)" by force
    moreover from w2 \<open>(tr_result tx, c) \<in> set (transfer_rows txs)\<close>
    obtain d t where "write_token_transfers_stmt (env_from_f64 E) (transfer_rows txs) a t d = (Ok q, sy_db s')"
      by (auto simp: write_token_transfers_def Let_def split: if_splits elim!: run_db_bound_Ok)
    ultimately show ?thesis
      using write_transfers_set [of "env_from_f64 E" "transfer_rows txs" a t d] by simp
  qed
  ultimately show ?thesis by (simp add: tx_stored_def)
qed

section \<open>Properties\<close>

text \<open>Connecting gives up after at most six attempts: it succeeds when one of them does and
  otherwise reports exactly six.\<close>

theorem connect_attempts:
  assumes "\<And>w. c (snd (connect w)) = Suc (c w)" and "\<And>w. c (snd (env_elapse E w)) = c w"
    and "\<And>w. c (snd (env_sample E w)) = c w"
    and "database_new connect E s = (r, s')"
  shows "c (sy_world s') \<le> c (sy_world s) + 6
       \<and> (case r of
            Ok _ \<Rightarrow> True
          | Err msg \<Rightarrow> c (sy_world s') = c (sy_world s) + 6
              \<and> msg = ''failed to connect to database after '' @ show_nat 6 @ '' attempts'')"
proof -
  have time: "c (sy_world (elapse E s)) = c (sy_world s)" for s
    by (simp add: elapse_def case_prod_beta Let_def assms(2))
  then have rest: "c (sy_world (sleep E d s)) = c (sy_world s)" for s d by (simp add: sleep_def)
  have "c (sy_world s') \<le> c (sy_world s) + (6 - n)
      \<and> (case r of Ok _ \<Rightarrow> True
          | Err msg \<Rightarrow> c (sy_world s') = c (sy_world s) + (6 - n)
              \<and> msg = ''failed to connect to database after '' @ show_nat 6 @ '' attempts'')"
    if "n \<le> 5" and "connect_loop connect E n b s = (r, s')" for n b s
    using that
  proof (induction "5 - n" arbitrary: n b s)
    case 0
    obtain q w where q: "connect (sy_world s) = (q, w)" by fastforce
    from assms(1) [of "sy_world s"] have w: "c w = Suc (c (sy_world s))" by (simp add: q)
    from 0 have "n = 5" by simp
    then show ?case
      using 0 q w time connect_loop_accepted [of connect s w E n b]
        connect_loop_refused(2) [of connect s _ w _ E _ b n, OF _ refl refl]
      by (cases q) (auto simp: max_connect_retries_def)
  next
    case (Suc k)
    obtain q w where q: "connect (sy_world s) = (q, w)" by fastforce
    from assms(1) [of "sy_world s"] have w: "c w = Suc (c (sy_world s))" by (simp add: q)
    show ?case
    proof (cases q)
      case (Inr u)
      with Suc.prems q w time connect_loop_accepted [of connect s w E n b] show ?thesis by auto
    next
      case (Inl e)
      let ?s1 = "elapse E (s\<lparr>sy_world := w\<rparr>)"
      let ?st = "step_and_get_sleep_duration (fst (env_sample E (sy_world ?s1))) b"
      let ?s2 = "sleep E (fst ?st) (?s1\<lparr>sy_world := snd (env_sample E (sy_world ?s1))\<rparr>)"
      have s2: "c (sy_world ?s2) = Suc (c (sy_world s))" by (simp add: rest assms(3) time w)
      have "connect_loop connect E (n + 1) (snd ?st) ?s2 = (r, s')"
        using connect_loop_refused(1) [of connect s e w ?s1 E ?st b n] q Inl Suc.prems Suc.hyps(2)
        by (simp add: max_connect_retries_def)
      moreover have "k = 5 - (n + 1)" "n + 1 \<le> 5" "6 - n = Suc (6 - (n + 1))" using Suc.hyps(2) by auto
      ultimately show ?thesis using Suc.hyps(1) [of "n + 1" "snd ?st" ?s2] s2 by (simp split: sum.splits)
    qed
  qed
  from this [of 0 "new_backoff (Finite 500) (Finite 5000) (Finite 2)" s] assms(4) show ?thesis
    by (cases r) (simp_all add: database_new_def)
qed

lemma connect_fails:
  assumes "\<And>w. \<exists>e. fst (connect w) = Err e"
  shows "\<exists>e. fst (connect_loop connect E n b s) = Err e"
proof (induction "max_connect_retries - n" arbitrary: n b s)
  case 0
  from assms obtain e w where c: "connect (sy_world s) = (Err e, w)" by (metis prod.collapse)
  from connect_loop_refused(2) [of connect s e w _ E _ b n, OF c refl refl] 0 show ?case by auto
next
  case (Suc k)
  from assms obtain e w where c: "connect (sy_world s) = (Err e, w)" by (metis prod.collapse)
  from Suc.hyps(2) have "n < max_connect_retries" "k = max_connect_retries - (n + 1)" by auto
  with connect_loop_refused(1) [of connect s e w _ E _ b n, OF c refl refl] Suc.hyps(1) [of "n + 1"]
  show ?case by simp
qed

theorem connect_attempts_witness:
  "fst (database_new (\<lambda>w. (Err ''refused'', (fst w, (0, []) # snd w))) script_env
     (script_start (small_db ''indexing'' False) [])) =
   Err (''failed to connect to database after '' @ show_nat 6 @ '' attempts'')"
proof -
  let ?connect = "\<lambda>w :: script. (Err ''refused'' :: unit result, (fst w, (0, [] :: string) # snd w))"
  obtain r s' where r: "database_new ?connect script_env (script_start (small_db ''indexing'' False) []) = (r, s')"
    by fastforce
  have "\<exists>e. fst (database_new ?connect script_env (script_start (small_db ''indexing'' False) [])) = Err e"
    unfolding database_new_def by (rule connect_fails) simp
  then have "\<exists>e. r = Err e" by (simp add: r)
  with connect_attempts [of "\<lambda>w. length (snd w)", OF _ _ _ r] r show ?thesis
    by auto
qed

text \<open>C35: when a save reports success, every transaction of the batch and every one of its events is in
  the tables, whatever other tasks wrote in between, as long as nobody deletes.\<close>

theorem save_persists:
  assumes "others_grow E" and "save_transaction_data E txs a s = (Ok st, s')"
  shows "\<forall>tx \<in> set txs. tx_stored E (sy_db s') a tx"
  using save_stores [OF assms] by blast

text \<open>C40: a batch with more transfer events than the protocol's bind parameters allow is never saved:
  with 65535 parameters and nineteen per row, 3450 events are too many, whatever is tried.\<close>

theorem too_many_transfers:
  assumes "env_bind_limit E = 65535" and "3450 \<le> length (transfer_rows txs)"
  shows "\<exists>e. fst (save_transaction_data E txs a s) = Err e"
proof -
  have rows: "transfer_rows txs \<noteq> []" using assms(2) by auto
  then have "txs \<noteq> []" by (auto simp: transfer_rows_def)
  moreover have "fst (write_token_transfers E txs a s1) = Err ''too many bind parameters''" for s1
    using assms rows by (simp add: write_token_transfers_def run_db_bound_def)
  ultimately show ?thesis
    by (auto simp: save_transaction_data_def split: prod.split sum.split)
       (metis fst_conv sum.distinct(1))
qed


theorem save_persists_witness:
  "\<exists>d. tx_stored script_env d ''owner'' sample_transaction"
proof -
  let ?txs = "[sample_transaction]" and ?s = "script_start (small_db ''indexing'' False) []"
  obtain st s' where "save_transaction_data script_env ?txs ''owner'' ?s = (Ok st, s')"
    by (simp add: save_transaction_data_def write_transaction_info_def write_token_transfers_def
        run_db_bound_def run_db_def transfer_rows_def sample_transaction_def script_turn_def
        run_stmt_def write_transaction_info_stmt_def case_prod_beta)
  from save_persists [OF _ this] have "tx_stored script_env (sy_db s') ''owner'' sample_transaction"
    by (simp add: others_grow_def)
  then show ?thesis by blast
qed

definition sample_change :: token_transfer_change where
  "sample_change = \<lparr>tt_token_mint = None, tt_token_program = None, tt_source_owner = Some ''a'',
     tt_destination_owner = Some ''b'', tt_source_token_account = None, tt_destination_token_account = None,
     tt_amount_raw = 5000, tt_amount_ui = None, tt_decimals = Some 9, tt_transfer_type = ''transfer'',
     tt_asset_type = ''native'', tt_direction = ''unknown'', tt_authority = None,
     tt_instruction_idx = Some 0, tt_inner_idx = None\<rparr>"

theorem too_many_transfers_witness:
  "\<exists>e. fst (save_transaction_data script_env
     [sample_transaction\<lparr>tr_token_transfer_changes := replicate 3450 sample_change\<rparr>] ''owner''
     (script_start (small_db ''indexing'' False) [])) = Err e"
  by (rule too_many_transfers) (simp_all add: transfer_rows_def)

end
