(* ===== verification/Indexer.thy ===== *)
theory Indexer
  imports Database Logging
begin

text \<open>
  The indexing of one job (\<open>src/indexer.rs\<close>): paging through the signatures of the address, fetching
  and storing the transactions of the unprocessed ones, and settling the status of the job. \<open>None\<close>
  means that the call does not return, because it runs for ever or panics.
\<close>

section \<open>The operations\<close>

partial_function (option) fetch_signatures_loop ::
    "'w env \<Rightarrow> helius_api \<Rightarrow> string \<Rightarrow> usize \<Rightarrow> i16 \<Rightarrow> string option \<Rightarrow> usize \<Rightarrow> 'w sys \<Rightarrow>
     (unit result \<times> 'w sys) option" where
  "fetch_signatures_loop E api address tx_limit requested_hours cur_last_signature seen s = do {
     (page, s) \<leftarrow> get_signatures E api address cur_last_signature requested_hours s;
     case page of
       Err e \<Rightarrow> Some (Err e, s)
     | Ok page \<Rightarrow>
         let seen = seen + length (resp_result (sp_response page));
             (inserted, s) = write_signatures E (sp_response page) address s
         in case inserted of
              Err e \<Rightarrow> Some (Err e, s)
            | Ok _ \<Rightarrow>
                if sp_reached_cutoff page \<or> sp_last_signature page = None \<or> sp_raw_count page < 1000
                   \<or> tx_limit \<le> seen
                then Some (Ok (), s)
                else fetch_signatures_loop E api address tx_limit requested_hours
                       (sp_last_signature page) seen s
   }"

definition fetch_signatures ::
    "'w env \<Rightarrow> helius_api \<Rightarrow> string \<Rightarrow> usize \<Rightarrow> i16 \<Rightarrow> 'w sys \<Rightarrow> (unit result \<times> 'w sys) option" where
  "fetch_signatures E api address tx_limit requested_hours s = do {
     masked_address \<leftarrow> mask_addr address;
     fetch_signatures_loop E api address tx_limit requested_hours None 0 s
   }"

partial_function (option) process_unprocessed_signatures ::
    "'w env \<Rightarrow> helius_api \<Rightarrow> string \<Rightarrow> 'w sys \<Rightarrow> (unit result \<times> 'w sys) option" where
  "process_unprocessed_signatures E api address s =
     (let (claimed, s) = get_unprocessed_signatures E address 100 s
      in case claimed of
           Err e \<Rightarrow> Some (Err e, s)
         | Ok sigs \<Rightarrow>
             if sigs = [] then Some (Ok (), s)
             else do {
               (batch, s) \<leftarrow> get_transaction E api sigs s;
               case batch of
                 Err e \<Rightarrow> Some (Err e, s)
               | Ok batch \<Rightarrow>
                   let (saved, s) = save_transaction_data E (tb_transactions batch) address s
                   in case saved of
                        Err e \<Rightarrow> Some (Err e, s)
                      | Ok _ \<Rightarrow>
                          let (marked, s) =
                            mark_signatures_processed E address (tb_processed_signatures batch) s
                          in case marked of
                               Err e \<Rightarrow> Some (Err e, s)
                             | Ok _ \<Rightarrow>
                                 if tb_errors batch \<noteq> []
                                 then Some (Err (show_nat (length (tb_errors batch)) @
                                                 '' transaction request(s) failed''), s)
                                 else process_unprocessed_signatures E api address s
             })"

definition mark_job_error :: "'w env \<Rightarrow> i64 \<Rightarrow> 'w sys \<Rightarrow> 'w sys" where
  "mark_job_error E job_id s = snd (update_processing_status_by_job_id E job_id ''error'' s)"

definition index_job ::
    "'w env \<Rightarrow> helius_api \<Rightarrow> claimed_job \<Rightarrow> 'w sys \<Rightarrow> (unit result \<times> 'w sys) option" where
  "index_job E api job s = do {
     (fetched, s) \<leftarrow> fetch_signatures E api (cj_address job)
                       (unwrap_or 1000 (to_usize (cj_tx_limit job))) (cj_requested_hours job) s;
     case fetched of
       Err e \<Rightarrow> Some (Err e, s)
     | Ok _ \<Rightarrow> process_unprocessed_signatures E api (cj_address job) s
   }"

definition process_claimed_job ::
    "'w env \<Rightarrow> helius_api \<Rightarrow> nat \<Rightarrow> claimed_job \<Rightarrow> 'w sys \<Rightarrow> 'w sys option" where
  "process_claimed_job E api worker_id job s = do {
     (processing_result, s) \<leftarrow> index_job E api job s;
     case processing_result of
       Ok _ \<Rightarrow>
         let (updated, s) = update_processing_status_by_job_id E (cj_job_id job) ''ready'' s
         in case updated of
              Ok n \<Rightarrow> if n = 0 then Some (mark_job_error E (cj_job_id job) s) else Some s
            | Err _ \<Rightarrow> Some s
     | Err _ \<Rightarrow> Some (mark_job_error E (cj_job_id job) s)
   }"

definition process_pending_job_once ::
    "'w env \<Rightarrow> helius_api \<Rightarrow> nat \<Rightarrow> 'w sys \<Rightarrow> (job_info option result \<times> 'w sys) option" where
  "process_pending_job_once E api worker_id s =
     (let (claimed, s) = claim_pending_job E worker_id s
      in case claimed of
           Err e \<Rightarrow> Some (Err e, s)
         | Ok None \<Rightarrow> Some (Ok None, s)
         | Ok (Some job) \<Rightarrow> do {
             s \<leftarrow> process_claimed_job E api worker_id job s;
             Some (get_job_info E (cj_job_id job) s)
           })"

section \<open>Invariants of the loops\<close>

lemma fetch_signatures_loop_pages:
  assumes P: "others_keep E P" "\<And>before s page s' t d. get_signatures E api a before h s = Some (Ok page, s') \<Longrightarrow> P d \<Longrightarrow>
      P (snd (write_signatures_stmt (resp_result (sp_response page)) a t d))"
    and r: "fetch_signatures_loop E api a mx h cur seen s = Some (r, s')" and s: "P (sy_db s)"
  shows "P (sy_db s')"
proof -
  have "E' = E \<longrightarrow> api' = api \<longrightarrow> a' = a \<longrightarrow> h' = h \<longrightarrow> P (sy_db s) \<longrightarrow> P (sy_db (snd x))"
    if "fetch_signatures_loop E' api' a' mx h' cur seen s = Some x" for E' api' a' mx h' cur seen s x
  proof (rule fetch_signatures_loop.raw_induct [where
      P = "\<lambda>E' api' a' mx h' cur seen s x. E' = E \<longrightarrow> api' = api \<longrightarrow> a' = a \<longrightarrow> h' = h \<longrightarrow> P (sy_db s) \<longrightarrow> P (sy_db (snd x))", OF _ that],
      intro impI, goal_cases)
    case (1 loop E' api' a' mx h' cur seen s x)
    then obtain page s1 where g: "get_signatures E api a cur h s = Some (page, s1)"
      by (auto simp: bind_eq_Some_conv)
    then have s1: "P (sy_db s1)" using 1 get_signatures_db [OF g] by simp
    show ?case
    proof (cases page)
      case (Inl e)
      with 1 g s1 show ?thesis by auto
    next
      case (Inr pg)
      obtain q s2 where w: "write_signatures E (sp_response pg) a s1 = (q, s2)" by fastforce
      have s2: "P (sy_db s2)" using facade_keeps(7) [OF P(1) s1 P(2), OF g [unfolded Inr]] w by simp
      show ?thesis
        using 1 g Inr w s2 by (auto simp: Let_def split: sum.splits if_splits)
    qed
  qed
  from this [OF r] s show ?thesis by simp
qed

lemma fetch_signatures_loop_keeps:
  assumes "others_keep E P" and "\<And>p a t d. P d \<Longrightarrow> P (snd (write_signatures_stmt p a t d))"
    and "fetch_signatures_loop E api a mx h cur seen s = Some (r, s')" and "P (sy_db s)"
  shows "P (sy_db s')"
  by (rule fetch_signatures_loop_pages [where P = P, OF assms(1) _ assms(3,4)]) (rule assms(2))

text \<open>The same for the second loop; \<open>P\<close> must also survive the marking of processed signatures.\<close>

lemma process_loop_keeps:
  assumes P: "others_keep E P" "\<And>a n t d. P d \<Longrightarrow> P (snd (get_unprocessed_signatures_stmt a n t d))"
      "\<And>txs a t d. P d \<Longrightarrow> P (snd (write_transaction_info_stmt txs a t d))"
      "\<And>ps a t d. P d \<Longrightarrow> P (snd (write_token_transfers_stmt (env_from_f64 E) ps a t d))"
      "\<And>a xs t d. P d \<Longrightarrow> P (snd (mark_signatures_processed_stmt a xs t d))"
    and r: "process_unprocessed_signatures E api a s = Some (r, s')" and s: "P (sy_db s)"
  shows "P (sy_db s')"
proof -
  have "E' = E \<longrightarrow> P (sy_db s) \<longrightarrow> P (sy_db (snd x))"
    if "process_unprocessed_signatures E' api a s = Some x" for E' api a s x
  proof (rule process_unprocessed_signatures.raw_induct [where
      P = "\<lambda>E' api a s x. E' = E \<longrightarrow> P (sy_db s) \<longrightarrow> P (sy_db (snd x))", OF _ that],
      intro impI, goal_cases)
    case (1 loop E' api a s x)
    obtain q s1 where q: "get_unprocessed_signatures E a 100 s = (q, s1)" by fastforce
    have "P (sy_db (snd (get_unprocessed_signatures E a 100 s)))"
      by (rule facade_keeps(5) [where P = P, OF P(1) _ P(2)]) (use 1 in simp)
    then have s1: "P (sy_db s1)" by (simp add: q)
    show ?case
    proof (cases "\<exists>sigs. q = Ok sigs \<and> sigs \<noteq> []")
      case False
      with 1 q s1 show ?thesis by (cases q) auto
    next
      case True
      then obtain sigs where sigs: "q = Ok sigs" "sigs \<noteq> []" by blast
      with 1(2,3) q obtain g s2 where g: "get_transaction E api sigs s1 = Some (g, s2)"
        by (auto simp: bind_eq_Some_conv)
      have s2: "P (sy_db s2)" using s1 get_transaction_db [OF g] by simp
      show ?thesis
      proof (cases g)
        case (Inl e)
        with 1 q sigs g s2 show ?thesis by auto
      next
        case (Inr b)
        obtain v s3 where v: "save_transaction_data E (tb_transactions b) a s2 = (v, s3)" by fastforce
        have s3: "P (sy_db s3)"
          using save_keeps [where P = P, OF P(1) s2 P(3,4), of "tb_transactions b" a] v by simp
        obtain m s4 where m: "mark_signatures_processed E a (tb_processed_signatures b) s3 = (m, s4)" by fastforce
        have s4: "P (sy_db s4)"
          using facade_keeps(6) [where P = P, OF P(1) s3 P(5), of a "tb_processed_signatures b"] m by simp
        show ?thesis using 1 q sigs g Inr v m s3 s4 by (auto split: sum.splits if_splits)
      qed
    qed
  qed
  from this [OF r] s show ?thesis by simp
qed

section \<open>Nothing is processed before it is stored\<close>

text \<open>The transaction a fetch of the signature yields, with its events.\<close>

definition fetched :: "'w env \<Rightarrow> helius_api \<Rightarrow> string \<Rightarrow> transaction_result \<Rightarrow> bool" where
  "fetched E api sig tx \<longleftrightarrow>
     (\<exists>s s' tx0. fetch_transaction_by_signature E api sig s = Some (OutcomeSuccess sig tx0, s')
        \<and> tx = calculate_token_transfer (env_pow_f64 E) tx0)"

definition all_stored :: "'w env \<Rightarrow> helius_api \<Rightarrow> db \<Rightarrow> bool" where
  "all_stored E api d \<longleftrightarrow>
     (\<forall>a x. sig_processed d a x \<longrightarrow> (\<exists>tx. fetched E api x tx \<and> tx_stored E d a tx))"

lemma all_stored_step:
  assumes "all_stored E api d" and "db_grows d d'"
    and "\<And>a x. sig_processed d' a x \<Longrightarrow> sig_processed d a x"
  shows "all_stored E api d'"
  unfolding all_stored_def using assms tx_stored_grows by (metis all_stored_def)

lemma fetch_loop_success_signature:
  "fetch_transaction_loop E api sig prev as s = Some (OutcomeSuccess sig' tx, s') \<Longrightarrow> sig' = sig"
proof (induction as arbitrary: s prev)
  case (Cons a as)
  obtain p s1 where p: "send_rpc_request E api (transaction_body sig) s = Some (p, s1)"
    using Cons.prems by (auto simp: try_fetch_transaction_once_def bind_eq_Some_conv)
  have "sig' = sig \<or> (\<exists>ra e. fetch_transaction_loop E api sig e as (snd (register_rate_limit E ra s1)) =
      Some (OutcomeSuccess sig' tx, s'))"
    using Cons.prems p
    by (auto simp: try_fetch_transaction_once_def Let_def case_prod_beta
        split: sum.splits if_splits fetch_attempt.splits)
  then show ?case using Cons.IH by blast
qed simp

fun fetch_ok :: "'w env \<Rightarrow> helius_api \<Rightarrow> string \<Rightarrow> tx_outcome \<Rightarrow> bool" where
  "fetch_ok E api sig (OutcomeSuccess sig' tx) \<longleftrightarrow>
     sig' = sig \<and> fetched E api sig (calculate_token_transfer (env_pow_f64 E) tx)"
| "fetch_ok E api sig (OutcomeFailed e) \<longleftrightarrow> True"

lemma fetch_is_ok:
  assumes "fetch_transaction_by_signature E api sig s = Some (out, s')"
  shows "fetch_ok E api sig out"
proof (cases out)
  case (OutcomeSuccess sig' tx)
  with assms fetch_loop_success_signature have "sig' = sig"
    unfolding fetch_transaction_by_signature_def by blast
  moreover from this assms OutcomeSuccess have "fetched E api sig (calculate_token_transfer (env_pow_f64 E) tx)"
    unfolding fetched_def by blast
  ultimately show ?thesis using OutcomeSuccess by simp
qed simp

lemma successes_fetched:
  "list_all2 (fetch_ok E api) sigs os \<Longrightarrow> (x, tx) \<in> set (successes os) \<Longrightarrow>
   fetched E api x (calculate_token_transfer (env_pow_f64 E) tx)"
proof (induction sigs os rule: list_all2_induct)
  case (Cons sig sigs out os)
  then show ?case by (cases out) auto
qed simp

lemma batch_fetched:
  assumes "get_transaction E api sigs s = Some (r, s')"
  obtains b where "r = Ok b" and "\<And>x. x \<in> set (tb_processed_signatures b) \<Longrightarrow>
      \<exists>tx \<in> set (tb_transactions b). fetched E api x tx"
proof -
  obtain os where
    os: "list_all2 (fetch_ok E api) sigs os" and
    r: "r = Ok (batch_of (calculate_token_transfer (env_pow_f64 E)) os)"
    by (rule get_transaction_batch [where Q = "fetch_ok E api", OF _ assms]) (rule fetch_is_ok)
  show thesis
  proof (rule that [OF r])
    fix x assume "x \<in> set (tb_processed_signatures (batch_of (calculate_token_transfer (env_pow_f64 E)) os))"
    then obtain tx where "(x, tx) \<in> set (successes os)" by (auto simp: batch_of_def)
    with successes_fetched [OF os this] show "\<exists>tx \<in> set (tb_transactions (batch_of (calculate_token_transfer (env_pow_f64 E)) os)).
        fetched E api x tx"
      by (force simp: batch_of_def)
  qed
qed

lemma processed_only_by_mark:
  "sig_processed (snd (get_unprocessed_signatures_stmt a n t d)) b x \<Longrightarrow> sig_processed d b x"
  "sig_processed (snd (write_signatures_stmt p a t d)) b x \<Longrightarrow> sig_processed d b x"
  "sig_processed (snd (mark_signatures_processed_stmt a xs t d)) b x \<Longrightarrow>
     sig_processed d b x \<or> b = a \<and> x \<in> set xs"
proof -
  show "sig_processed (snd (get_unprocessed_signatures_stmt a n t d)) b x \<Longrightarrow> sig_processed d b x"
    by (auto simp: sig_processed_def sigs_claim_rows list_ex_iff split: if_splits)
  show "sig_processed (snd (write_signatures_stmt p a t d)) b x \<Longrightarrow> sig_processed d b x"
    using sigtab.ins_only [of _ "signatures d" "map (new_sig_row a) p"]
    by (fastforce simp: sig_processed_def write_signatures_rows list_ex_iff new_sig_row_def)
  show "sig_processed (snd (mark_signatures_processed_stmt a xs t d)) b x \<Longrightarrow>
     sig_processed d b x \<or> b = a \<and> x \<in> set xs"
    by (auto simp: sig_processed_def mark_rows list_ex_iff mark_applies_def split: if_splits)
qed

lemma all_stored_stmts:
  assumes "all_stored E api d"
  shows "all_stored E api (snd (claim_pending_job_stmt w t d))"
    and "all_stored E api (snd (update_processing_status_stmt i st t d))"
    and "all_stored E api (snd (get_unprocessed_signatures_stmt a n t d))"
    and "all_stored E api (snd (write_signatures_stmt p a t d))"
    and "all_stored E api (snd (write_transaction_info_stmt txs a t d))"
    and "all_stored E api (snd (write_token_transfers_stmt f ps a t d))"
    and "all_stored E api (snd (create_processing_job_stmt a l h t d))"
proof -
  note step = all_stored_step [OF assms]
  show "all_stored E api (snd (claim_pending_job_stmt w t d))"
    by (rule step [OF grows_claim_job]) (simp add: processed_cong [OF claim_frame(1)])
  show "all_stored E api (snd (update_processing_status_stmt i st t d))"
    by (rule step [OF grows_status]) (simp add: processed_cong [OF status_frame(1)])
  show "all_stored E api (snd (get_unprocessed_signatures_stmt a n t d))"
    by (rule step [OF grows_lease]) (rule processed_only_by_mark(1))
  show "all_stored E api (snd (write_signatures_stmt p a t d))"
    by (rule step [OF grows_page]) (rule processed_only_by_mark(2))
  show "all_stored E api (snd (write_transaction_info_stmt txs a t d))"
    by (rule step [OF grows_txs]) (simp add: processed_cong [OF write_txs_frame(3)])
  show "all_stored E api (snd (write_token_transfers_stmt f ps a t d))"
    by (rule step [OF grows_transfers]) (simp add: processed_cong [OF write_transfers_frame(3)])
  show "all_stored E api (snd (create_processing_job_stmt a l h t d))"
    by (rule step [OF grows_create]) (simp add: processed_cong [OF create_frame(1)])
qed

lemma all_stored_mark:
  assumes "all_stored E api d"
    and "\<And>x. x \<in> set xs \<Longrightarrow> \<exists>tx. fetched E api x tx \<and> tx_stored E d a tx"
  shows "all_stored E api (snd (mark_signatures_processed_stmt a xs t d))"
  unfolding all_stored_def
proof (intro allI impI)
  fix b x assume "sig_processed (snd (mark_signatures_processed_stmt a xs t d)) b x"
  then consider "sig_processed d b x" | "b = a" "x \<in> set xs" using processed_only_by_mark(3) by blast
  then obtain tx where "fetched E api x tx" "tx_stored E d b tx"
    using assms unfolding all_stored_def by cases blast+
  with tx_stored_grows [OF _ grows_mark] show "\<exists>tx. fetched E api x tx
      \<and> tx_stored E (snd (mark_signatures_processed_stmt a xs t d)) b tx" by blast
qed

section \<open>The discipline of the tasks\<close>

text \<open>What the statements promise to the tasks that run them: \<open>P\<close> survives every statement the program
  runs, the marking of signatures only if their fetched transactions are stored, a status update only
  to \<open>ready\<close> or \<open>error\<close>, a claim only of a pending job.\<close>

locale disciplined =
  fixes E :: "'w env" and api :: helius_api and P :: "db \<Rightarrow> bool"
  assumes page: "P d \<Longrightarrow> P (snd (write_signatures_stmt p a t d))"
    and lease: "P d \<Longrightarrow> P (snd (get_unprocessed_signatures_stmt a n t d))"
    and save_txs: "P d \<Longrightarrow> P (snd (write_transaction_info_stmt txs a t d))"
    and save_transfers: "P d \<Longrightarrow> P (snd (write_token_transfers_stmt (env_from_f64 E) ps a t d))"
    and mark: "P d \<Longrightarrow> (\<And>x. x \<in> set xs \<Longrightarrow> \<exists>tx. fetched E api x tx \<and> tx_stored E d a tx) \<Longrightarrow>
      P (snd (mark_signatures_processed_stmt a xs t d))"
    and settle: "st \<in> {''ready'', ''error''} \<Longrightarrow> P d \<Longrightarrow> P (snd (update_processing_status_stmt i st t d))"
    and claim: "j \<in> set (processing_data d) \<Longrightarrow> jr_status j = ''pending'' \<Longrightarrow> P d \<Longrightarrow>
      P (set_indexing t (jr_id j) v d)"
    and create: "P d \<Longrightarrow> P (snd (create_processing_job_stmt a l h t d))"
begin

lemma marking:
  assumes grow: "others_grow E" and keep: "others_keep E P"
    and s: "P (sy_db s)"
    and xs: "\<And>x. x \<in> set xs \<Longrightarrow> \<exists>tx. fetched E api x tx \<and> tx_stored E (sy_db s) a tx"
  shows "P (sy_db (snd (mark_signatures_processed E a xs s)))"
proof -
  obtain d t w where e: "env_db_turn E (sy_db s) (sy_world s) = (d, t, w)" by (rule prod_cases3)
  have d: "P d" using keep s e unfolding others_keep_def by (metis fst_conv)
  have "db_grows (sy_db s) d" using grow e unfolding others_grow_def by (metis fst_conv)
  then have "\<exists>tx. fetched E api x tx \<and> tx_stored E d a tx" if "x \<in> set xs" for x
    using xs [OF that] tx_stored_grows by blast
  then have "P (snd (mark_signatures_processed_stmt a xs t d))" by (intro mark d)
  then have "P (snd (run_stmt t (mark_signatures_processed_stmt a xs) d))"
    using run_stmt_state [of t "mark_signatures_processed_stmt a xs" d] d by auto
  with s show ?thesis by (simp add: mark_signatures_processed_def run_db_def e case_prod_beta)
qed

lemma processing_loop:
  assumes grow: "others_grow E" and keep: "others_keep E P"
    and r: "process_unprocessed_signatures E api a s = Some (r, s')" and s: "P (sy_db s)"
  shows "P (sy_db s')"
proof -
  let ?I = "\<lambda>s. P (sy_db s)"
  have "E' = E \<longrightarrow> api' = api \<longrightarrow> ?I s \<longrightarrow> ?I (snd x)"
    if "process_unprocessed_signatures E' api' a s = Some x" for E' api' a s x
  proof (rule process_unprocessed_signatures.raw_induct [where
      P = "\<lambda>E' api' a s x. E' = E \<longrightarrow> api' = api \<longrightarrow> ?I s \<longrightarrow> ?I (snd x)", OF _ that],
      intro impI, goal_cases)
    case (1 loop E' api' a s x)
    obtain q s1 where q: "get_unprocessed_signatures E a 100 s = (q, s1)" by fastforce
    have "?I s" using 1 by simp
    then have "?I (snd (get_unprocessed_signatures E a 100 s))"
      by (intro facade_keeps(5) [where P = P, OF keep] lease)
    then have s1: "?I s1" by (simp add: q)
    show ?case
    proof (cases "\<exists>sigs. q = Ok sigs \<and> sigs \<noteq> []")
      case False
      with 1 q s1 show ?thesis by (cases q) auto
    next
      case True
      then obtain sigs where sigs: "q = Ok sigs" "sigs \<noteq> []" by blast
      with 1(2-4) q obtain g s2 where g: "get_transaction E api sigs s1 = Some (g, s2)"
        by (auto simp: bind_eq_Some_conv)
      obtain b where b: "g = Ok b" "\<And>x. x \<in> set (tb_processed_signatures b) \<Longrightarrow>
          \<exists>tx \<in> set (tb_transactions b). fetched E api x tx"
        using batch_fetched [OF g] by blast
      have s2: "?I s2" using s1 get_transaction_db [OF g] by simp
      obtain v s3 where v: "save_transaction_data E (tb_transactions b) a s2 = (v, s3)" by fastforce
      have "?I (snd (save_transaction_data E (tb_transactions b) a s2))"
        by (intro save_keeps [where P = P, OF keep s2] save_txs save_transfers)
      then have s3: "?I s3" by (simp add: v)
      show ?thesis
      proof (cases v)
        case (Inl e)
        with 1 q sigs g b v s3 show ?thesis by auto
      next
        case (Inr st)
        obtain m s4 where m: "mark_signatures_processed E a (tb_processed_signatures b) s3 = (m, s4)" by fastforce
        have stored: "\<exists>tx. fetched E api x tx \<and> tx_stored E (sy_db s3) a tx"
          if "x \<in> set (tb_processed_signatures b)" for x
          using b(2) [OF that] save_stores [OF grow] v Inr by blast
        have "?I (snd (mark_signatures_processed E a (tb_processed_signatures b) s3))"
          by (rule marking [OF grow keep s3 stored])
        with 1 q sigs g b v Inr m show ?thesis by (auto split: sum.splits if_splits)
      qed
    qed
  qed
  from this [OF r] s show ?thesis by simp
qed

end

interpretation stored: disciplined E api "all_stored E api" for E api
proof unfold_locales
  show "all_stored E api (snd (mark_signatures_processed_stmt a xs t d))"
    if "all_stored E api d" "\<And>x. x \<in> set xs \<Longrightarrow> \<exists>tx. fetched E api x tx \<and> tx_stored E d a tx" for d xs a t
    using that by (rule all_stored_mark)
  show "all_stored E api (set_indexing t i v d)" if "all_stored E api d" for t i v d
    by (rule all_stored_step [OF that grows_jobs]) (simp_all add: frame_simps processed_cong [OF set_indexing_frame(1)])
qed (auto intro: all_stored_stmts)

end
