(* ===== verification/IndexerProps.thy ===== *)
theory IndexerProps
  imports Indexer
begin

text \<open>
  What the indexing of a job guarantees: nothing is processed before it is stored, it returns, it sends
  a bounded number of requests, and the job it was claimed for is settled.
\<close>

section \<open>Keeping an invariant through a job\<close>

lemma index_job_cases:
  assumes "index_job E api job s = Some (r, s')"
  obtains q s1 where "fetch_signatures_loop E api (cj_address job) (unwrap_or 1000 (to_usize (cj_tx_limit job)))
      (cj_requested_hours job) None 0 s = Some (q, s1)"
    and "q = Ok () \<and> process_unprocessed_signatures E api (cj_address job) s1 = Some (r, s')
      \<or> (\<exists>e. q = Err e \<and> r = Err e \<and> s' = s1)"
proof -
  from assms obtain q s1 where q: "fetch_signatures_loop E api (cj_address job)
      (unwrap_or 1000 (to_usize (cj_tx_limit job))) (cj_requested_hours job) None 0 s = Some (q, s1)"
    by (auto simp: index_job_def fetch_signatures_def bind_eq_Some_conv)
  with assms have "q = Ok () \<and> process_unprocessed_signatures E api (cj_address job) s1 = Some (r, s')
      \<or> (\<exists>e. q = Err e \<and> r = Err e \<and> s' = s1)"
    by (auto simp: index_job_def fetch_signatures_def bind_eq_Some_conv split: sum.splits)
  with q that show thesis by blast
qed

lemma process_job_cases:
  assumes "process_claimed_job E api w job s = Some s'"
  obtains (failed) e s1 where "index_job E api job s = Some (Err e, s1)"
      "s' = mark_job_error E (cj_job_id job) s1"
    | (ready) s1 q s2 where "index_job E api job s = Some (Ok (), s1)"
      "update_processing_status_by_job_id E (cj_job_id job) ''ready'' s1 = (q, s2)"
      "q = Ok 0 \<and> s' = mark_job_error E (cj_job_id job) s2 \<or> q \<noteq> Ok 0 \<and> s' = s2"
proof -
  from assms obtain r s1 where r: "index_job E api job s = Some (r, s1)"
    by (auto simp: process_claimed_job_def bind_eq_Some_conv)
  show thesis
  proof (cases r)
    case (Inl e)
    with assms r failed show thesis by (simp add: process_claimed_job_def)
  next
    case (Inr u)
    obtain q s2 where q: "update_processing_status_by_job_id E (cj_job_id job) ''ready'' s1 = (q, s2)" by fastforce
    with assms r Inr have "q = Ok 0 \<and> s' = mark_job_error E (cj_job_id job) s2 \<or> q \<noteq> Ok 0 \<and> s' = s2"
      by (auto simp: process_claimed_job_def split: sum.splits if_splits)
    with r Inr q ready show thesis by simp
  qed
qed

context disciplined begin

lemma paging:
  assumes "others_keep E P" and "fetch_signatures_loop E api a mx h cur seen s = Some (r, s')" and "P (sy_db s)"
  shows "P (sy_db s')"
  by (rule fetch_signatures_loop_keeps [where P = P, OF assms(1) page assms(2,3)])

lemma indexing:
  assumes "others_grow E" and "others_keep E P" and "P (sy_db s)" and "index_job E api job s = Some (r, s')"
  shows "P (sy_db s')"
  using index_job_cases [OF assms(4)] paging [OF assms(2) _ assms(3)] processing_loop [OF assms(1,2)] by metis

lemma settling:
  assumes "others_keep E P" and "P (sy_db s)"
  shows "st \<in> {''ready'', ''error''} \<Longrightarrow> P (sy_db (snd (update_processing_status_by_job_id E i st s)))"
    and "P (sy_db (mark_job_error E i s))"
  using facade_keeps(2) [where P = P, OF assms] settle by (simp_all add: mark_job_error_def)

lemma claimed_job:
  assumes "others_grow E" and "others_keep E P" and "P (sy_db s)"
    and "process_claimed_job E api w job s = Some s'"
  shows "P (sy_db s')"
  using assms(4)
proof (cases rule: process_job_cases)
  case (failed e s1)
  then show ?thesis using indexing [OF assms(1-3)] settling(2) [OF assms(2)] by simp
next
  case (ready s1 q s2)
  have "P (sy_db s2)" using settling(1) [OF assms(2) indexing [OF assms(1-3) ready(1)], of "''ready''" "cj_job_id job"] ready(2) by simp
  with ready(3) settling(2) [OF assms(2)] show ?thesis by auto
qed

end

section \<open>Returning\<close>

text \<open>No other client of the database; the statements may still fail.\<close>

definition db_alone :: "'w env \<Rightarrow> bool" where
  "db_alone E \<longleftrightarrow>
     (\<forall>d w. fst (env_db_turn E d w) = d \<and> fair_turn (fst (snd (env_db_turn E d w))))"

text \<open>A service that gives every signature its block time.\<close>

definition timed_service :: "'w env \<Rightarrow> bool" where
  "timed_service E \<longleftrightarrow>
     (\<forall>text result. env_decode_signatures E text = Ok \<lparr>env_result = Value result, env_error = None\<rparr> \<longrightarrow>
        list_all has_time result)"

text \<open>A service whose signatures the client can log, and tables that hold only such signatures. A base58
  signature can be masked; the code does not check that it is one.\<close>

definition maskable_service :: "'w env \<Rightarrow> bool" where
  "maskable_service E \<longleftrightarrow>
     (\<forall>text result. env_decode_signatures E text = Ok \<lparr>env_result = Value result, env_error = None\<rparr> \<longrightarrow>
        list_all (\<lambda>s. log_safe E (sig_signature s)) result)"

definition loggable_db :: "'w env \<Rightarrow> db \<Rightarrow> bool" where
  "loggable_db E d \<longleftrightarrow> list_all (\<lambda>r. log_safe E (sr_signature r)) (signatures d)"

lemma loggable_same:
  "signatures d' = map h (signatures d) \<Longrightarrow> (\<And>r. sr_signature (h r) = sr_signature r) \<Longrightarrow> loggable_db E d \<Longrightarrow>
   loggable_db E d'"
  by (simp add: loggable_db_def list_all_iff)

lemma loggable_lease: "loggable_db E d \<Longrightarrow> loggable_db E (snd (get_unprocessed_signatures_stmt a n t d))"
  by (rule loggable_same [OF sigs_claim_rows]) simp_all

lemma loggable_mark: "loggable_db E d \<Longrightarrow> loggable_db E (snd (mark_signatures_processed_stmt a xs t d))"
  by (rule loggable_same [OF mark_rows]) simp_all

lemma loggable_write:
  assumes "list_all (\<lambda>s. log_safe E (sig_signature s)) p" and "loggable_db E d"
  shows "loggable_db E (snd (write_signatures_stmt p a t d))"
  unfolding loggable_db_def list_all_iff write_signatures_rows
  by (rule ballI, drule sigtab.ins_only) (use assms in \<open>auto simp: loggable_db_def list_all_iff new_sig_row_def\<close>)

lemma db_alone_keeps: "db_alone E \<Longrightarrow> others_keep E P"
  by (simp add: db_alone_def others_keep_def)

lemma run_db_alone:
  assumes "db_alone E"
  obtains t where "fair_turn t" and "fst (run_db E stmt s) = fst (run_stmt t stmt (sy_db s))"
    and "sy_db (snd (run_db E stmt s)) = snd (run_stmt t stmt (sy_db s))"
proof -
  obtain d t w where e: "env_db_turn E (sy_db s) (sy_world s) = (d, t, w)" by (rule prod_cases3)
  with assms have "d = sy_db s" "fair_turn t" unfolding db_alone_def by (metis fst_conv, metis fst_conv snd_conv)
  with e that show thesis by (simp add: run_db_def case_prod_beta)
qed

text \<open>The unprocessed signatures of an address.\<close>

definition unprocessed :: "string \<Rightarrow> db \<Rightarrow> nat" where
  "unprocessed a d = length (filter (\<lambda>s. sr_owner s = a \<and> sr_is_processed s = Some False) (signatures d))"

lemma length_filter_map_same:
  "(\<And>x. P (h x) = P x) \<Longrightarrow> length (filter P (map h xs)) = length (filter P xs)"
  by (induction xs) simp_all

lemma lease_unprocessed: "unprocessed a (snd (get_unprocessed_signatures_stmt b n t d)) = unprocessed a d"
  unfolding unprocessed_def sigs_claim_rows by (rule length_filter_map_same) simp

lemma lease_member:
  assumes "fair_turn t" and "get_unprocessed_signatures_stmt a n t d = (Ok sigs, d')" and "x \<in> set sigs"
  obtains s where "s \<in> set (signatures d)" and "sr_owner s = a" and "sr_signature s = x"
    and "sr_is_processed s = Some False"
proof -
  from assms(2,3) have "x \<in> set (chosen_sigs a (nat n) t d)"
    by (auto simp: get_unprocessed_signatures_stmt_def Let_def split: if_splits)
  with assms(1) that show thesis by (auto elim!: chosen_sigs_claimable simp: claimable_sig_def)
qed

lemma leased_row:
  assumes "fair_turn t" and "get_unprocessed_signatures_stmt a n t d = (Ok sigs, d')" and "x \<in> set sigs"
  obtains s where "s \<in> set (signatures d')" and "sr_owner s = a" and "sr_signature s \<in> set sigs"
    and "sr_is_processed s = Some False"
proof -
  obtain s where s: "s \<in> set (signatures d)" "sr_owner s = a" "sr_signature s = x"
    "sr_is_processed s = Some False" by (rule lease_member [OF assms])
  let ?h = "\<lambda>s. if 0 \<le> n \<and> sr_owner s = a \<and> sr_signature s \<in> set (chosen_sigs a (nat n) t d)
      then s\<lparr>sr_is_processing := Some True, sr_started_at := Some (t_now t)\<rparr> else s"
  have "signatures d' = map ?h (signatures d)"
    using sigs_claim_rows [of a n t d] by (simp only: assms(2) snd_conv)
  then have "?h s \<in> set (signatures d')" using s(1) by (simp only: set_map) (rule imageI)
  moreover have "sr_owner (?h s) = a" "sr_signature (?h s) = x" "sr_is_processed (?h s) = Some False"
    using s by simp_all
  ultimately show thesis using assms(3) by (intro that [of "?h s"]) (simp_all only:)
qed

lemma mark_less:
  assumes "s \<in> set (signatures d)" and "sr_owner s = a" and "sr_signature s \<in> set xs"
    and "sr_is_processed s = Some False"
  shows "unprocessed a (snd (mark_signatures_processed_stmt a xs t d)) < unprocessed a d"
  unfolding unprocessed_def mark_rows
  by (rule length_filter_map_less [where y = s]) (use assms in \<open>auto simp: mark_applies_def split: if_splits\<close>)

text \<open>A batch without errors processed everything it was asked for.\<close>

lemma no_failures_all_processed:
  "list_all2 (fetch_ok E api) sigs os \<Longrightarrow> failures os = [] \<Longrightarrow> map fst (successes os) = sigs"
proof (induction sigs os rule: list_all2_induct)
  case (Cons sig sigs out os)
  then show ?case by (cases out) auto
qed simp

lemma batch_complete:
  assumes "get_transaction E api sigs s = Some (Ok b, s')" and "tb_errors b = []"
  shows "tb_processed_signatures b = sigs"
proof -
  obtain os where "list_all2 (fetch_ok E api) sigs os"
    "(Ok b :: transaction_batch result) = Ok (batch_of (calculate_token_transfer (env_pow_f64 E)) os)"
    by (rule get_transaction_batch [where Q = "fetch_ok E api", OF _ assms(1)]) (rule fetch_is_ok)
  with assms(2) no_failures_all_processed show ?thesis by (auto simp: batch_of_def)
qed

lemma process_loop_returns:
  assumes "unhindered E api" and "db_alone E"
  shows "loggable_db E (sy_db s) \<Longrightarrow> \<exists>x. process_unprocessed_signatures E api a s = Some x"
proof (induction "unprocessed a (sy_db s)" arbitrary: s rule: less_induct)
  case less
  obtain q s1 where q: "get_unprocessed_signatures E a 100 s = (q, s1)" by fastforce
  show ?case
  proof (cases "\<exists>sigs. q = Ok sigs \<and> sigs \<noteq> []")
    case False
    with q show ?thesis
      by (subst process_unprocessed_signatures.simps) (auto split: sum.split)
  next
    case True
    then obtain sigs where sigs: "q = Ok sigs" "sigs \<noteq> []" by blast
    obtain t where t: "fair_turn t"
      "fst (run_db E (get_unprocessed_signatures_stmt a 100) s) =
         fst (run_stmt t (get_unprocessed_signatures_stmt a 100) (sy_db s))"
      "sy_db (snd (run_db E (get_unprocessed_signatures_stmt a 100) s)) =
         snd (run_stmt t (get_unprocessed_signatures_stmt a 100) (sy_db s))"
      by (rule run_db_alone [OF assms(2)])
    then have "run_stmt t (get_unprocessed_signatures_stmt a 100) (sy_db s) = (Ok sigs, sy_db s1)"
      using q sigs by (simp add: get_unprocessed_signatures_def prod_eq_iff)
    then have leased: "get_unprocessed_signatures_stmt a 100 t (sy_db s) = (Ok sigs, sy_db s1)"
      by (rule run_stmt_Ok [THEN conjunct2])
    have u1: "unprocessed a (sy_db s1) = unprocessed a (sy_db s)"
      using lease_unprocessed [of a a 100 t "sy_db s"] leased by simp
    from sigs(2) obtain x where x: "x \<in> set sigs" by (cases sigs) auto
    obtain row where row: "row \<in> set (signatures (sy_db s1))" "sr_owner row = a" "sr_signature row \<in> set sigs"
      "sr_is_processed row = Some False" by (rule leased_row [OF t(1) leased x])
    have "log_safe E y" if "y \<in> set sigs" for y
      using lease_member [OF t(1) leased that] less.prems by (auto simp: loggable_db_def list_all_iff)
    then have "list_all (log_safe E) sigs" by (simp add: list_all_iff)
    then obtain g b s2 where g: "get_transaction E api sigs s1 = Some (g, s2)" and b: "g = Ok b"
      by (rule get_transaction_returns [OF assms(1)]) blast
    obtain v s3 where v: "save_transaction_data E (tb_transactions b) a s2 = (v, s3)" by fastforce
    obtain m s4 where m: "mark_signatures_processed E a (tb_processed_signatures b) s3 = (m, s4)" by fastforce
    have "\<exists>x. process_unprocessed_signatures E api a s4 = Some x"
      if ok: "\<exists>st. v = Ok st" "\<exists>n. m = Ok n" "tb_errors b = []"
    proof -
      have "signatures (sy_db (snd (save_transaction_data E (tb_transactions b) a s2))) = signatures (sy_db s2)"
        by (rule save_keeps [where P = "\<lambda>d. signatures d = signatures (sy_db s2)", OF db_alone_keeps [OF assms(2)]])
           (simp_all add: frame_simps)
      then have s3: "signatures (sy_db s3) = signatures (sy_db s1)"
        using v get_transaction_db [OF g] by simp
      have all: "tb_processed_signatures b = sigs" using batch_complete g b ok(3) by blast
      obtain t' where t': "fst (run_db E (mark_signatures_processed_stmt a sigs) s3) =
           fst (run_stmt t' (mark_signatures_processed_stmt a sigs) (sy_db s3))"
        "sy_db (snd (run_db E (mark_signatures_processed_stmt a sigs) s3)) =
           snd (run_stmt t' (mark_signatures_processed_stmt a sigs) (sy_db s3))"
        by (rule run_db_alone [OF assms(2)])
      obtain n where n: "m = Ok n" using ok(2) by blast
      have "run_stmt t' (mark_signatures_processed_stmt a sigs) (sy_db s3) = (Ok n, sy_db s4)"
        using m t' sigs(2) all n by (simp add: mark_signatures_processed_def prod_eq_iff)
      then have "sy_db s4 = snd (mark_signatures_processed_stmt a sigs t' (sy_db s3))"
        by (metis run_stmt_Ok snd_conv)
      moreover have "unprocessed a (snd (mark_signatures_processed_stmt a sigs t' (sy_db s3))) < unprocessed a (sy_db s3)"
        using mark_less [of row "sy_db s3" a sigs t'] row s3 by simp
      moreover have "unprocessed a (sy_db s3) = unprocessed a (sy_db s)"
        using s3 u1 by (simp add: unprocessed_def)
      moreover have "loggable_db E (sy_db s4)"
      proof -
        have "loggable_db E (sy_db s1)" using loggable_lease [OF less.prems, of a 100 t] leased by simp
        then have "loggable_db E (sy_db s3)" using s3 by (simp add: loggable_db_def)
        then show ?thesis using \<open>sy_db s4 = _\<close> loggable_mark by simp
      qed
      ultimately show ?thesis using less.hyps by simp
    qed
    then show ?thesis
      using q sigs g b v m
      by (subst process_unprocessed_signatures.simps) (auto simp: Let_def split: sum.split)
  qed
qed

section \<open>Paging\<close>

text \<open>A page after which the loop goes on holds at least a thousand signatures, all in the window.\<close>

lemma full_page:
  assumes "timed_service E" and "get_signatures E api a before h s = Some (Ok page, s')"
    and "\<not> sp_reached_cutoff page" and "\<not> sp_raw_count page < 1000"
  shows "1000 \<le> length (resp_result (sp_response page))"
proof -
  obtain bod result now where r:
    "env_decode_signatures E bod = Ok \<lparr>env_result = Value result, env_error = None\<rparr>"
    and page: "page = page_of result h now"
    using signatures_loop_page [OF get_signatures_Some [OF assms(2)]] by blast
  have "list_all has_time result" using assms(1) r by (auto simp: timed_service_def)
  then have "filter (\<lambda>s. \<not> has_time s) (takeWhile (not_old (cutoff_of h now)) result) = []"
    by (auto simp: filter_empty_conv list_all_iff dest: set_takeWhileD)
  then have "rs_skipped_null_block_time (take_recent_signatures_at result h now) = 0"
    by (simp add: take_recent_eq Let_def)
  with recent_counts [of result h now] assms(3,4) show ?thesis by (simp add: page)
qed

lemma fetch_loop_pages:
  assumes "unhindered E api" and "timed_service E" and "log_safe E a"
  shows "\<exists>x. fetch_signatures_loop E api a mx h cur seen s = Some x"
proof (induction "mx - seen" arbitrary: cur seen s rule: less_induct)
  case less
  obtain q s1 where q: "get_signatures E api a cur h s = Some (q, s1)"
    by (rule get_signatures_returns [OF assms(1,3)])
  show ?case
  proof (cases q)
    case (Inl e)
    with q show ?thesis by (subst fetch_signatures_loop.simps) simp
  next
    case (Inr page)
    obtain w s2 where w: "write_signatures E (sp_response page) a s1 = (w, s2)" by fastforce
    let ?seen = "seen + length (resp_result (sp_response page))"
    have "\<exists>x. fetch_signatures_loop E api a mx h (sp_last_signature page) ?seen s2 = Some x"
      if "\<not> (sp_reached_cutoff page \<or> sp_last_signature page = None \<or> sp_raw_count page < 1000 \<or> mx \<le> ?seen)"
      using that full_page [OF assms(2), of api a cur h s page s1] q Inr by (intro less) auto
    then show ?thesis
      using q Inr w by (subst fetch_signatures_loop.simps) (auto simp: Let_def split: sum.split)
  qed
qed

lemma sent_run_db: "counts_requests E c \<Longrightarrow> (\<And>d w. c (snd (snd (env_db_turn E d w))) = c w) \<Longrightarrow>
    sent c (snd (run_db E stmt s)) = sent c s"
  by (simp add: run_db_def sent_def case_prod_beta Let_def)

lemma fetch_loop_requests:
  assumes "counts_requests E c" and "\<And>d w. c (snd (snd (env_db_turn E d w))) = c w"
    and "timed_service E" and "fetch_signatures_loop E api a mx h cur seen s = Some (r, s')"
  shows "sent c s' \<le> sent c s + ((mx - seen) div 1000 + 1) * (ha_max_rate_limit_retries api + 1)"
proof -
  let ?R = "ha_max_rate_limit_retries api + 1"
  have "E' = E \<longrightarrow> api' = api \<longrightarrow> sent c (snd x) \<le> sent c s + ((mx - seen) div 1000 + 1) * ?R"
    if "fetch_signatures_loop E' api' a mx h cur seen s = Some x" for E' api' a mx h cur seen s x
  proof (rule fetch_signatures_loop.raw_induct [where
      P = "\<lambda>E' api' a mx h cur seen s x. E' = E \<longrightarrow> api' = api \<longrightarrow>
        sent c (snd x) \<le> sent c s + ((mx - seen) div 1000 + 1) * ?R", OF _ that], intro impI, goal_cases)
    case (1 loop E' api' a mx h cur seen s x)
    then obtain q s1 where q: "get_signatures E api a cur h s = Some (q, s1)"
      by (auto simp: bind_eq_Some_conv)
    have s1: "sent c s1 \<le> sent c s + ?R"
      using sent_signatures_loop [OF assms(1) get_signatures_Some [OF q]] attempts_length [of api] by simp
    show ?case
    proof (cases q)
      case (Inl e)
      with 1 q s1 show ?thesis by auto
    next
      case (Inr page)
      obtain w s2 where w: "write_signatures E (sp_response page) a s1 = (w, s2)" by fastforce
      have "sent c (snd (write_signatures E (sp_response page) a s1)) = sent c s1"
        by (simp add: write_signatures_def run_db_bound_def sent_run_db [OF assms(1,2)])
      then have s2: "sent c s2 = sent c s1" by (simp add: w)
      let ?seen = "seen + length (resp_result (sp_response page))"
      show ?thesis
      proof (cases "(\<exists>n. w = Ok n) \<and> \<not> (sp_reached_cutoff page \<or> sp_last_signature page = None
          \<or> sp_raw_count page < 1000 \<or> mx \<le> ?seen)")
        case False
        with 1 q Inr w s1 s2 show ?thesis by (auto simp: Let_def split: sum.splits if_splits)
      next
        case True
        then have full: "1000 \<le> length (resp_result (sp_response page))"
          using full_page [OF assms(3), of api a cur h s page s1] q Inr by simp
        have "loop E api a mx h (sp_last_signature page) ?seen s2 = Some x"
          using 1 q Inr w True by (auto simp: Let_def)
        then have "sent c (snd x) \<le> sent c s2 + ((mx - ?seen) div 1000 + 1) * ?R" using 1(1) by blast
        moreover have "(mx - ?seen) div 1000 + 1 \<le> (mx - seen) div 1000"
        proof -
          have "mx - ?seen + 1000 \<le> mx - seen" using full True by simp
          then have "(mx - ?seen + 1000) div 1000 \<le> (mx - seen) div 1000" by (rule div_le_mono)
          then show ?thesis by simp
        qed
        then have "((mx - ?seen) div 1000 + 1) * ?R \<le> ((mx - seen) div 1000) * ?R" by (rule mult_le_mono1)
        ultimately show ?thesis using s1 s2 by simp
      qed
    qed
  qed
  from this [OF assms(4)] show ?thesis by simp
qed

text \<open>What the pages of the service leave in the table can be logged.\<close>

lemma page_maskable:
  assumes "maskable_service E" and "get_signatures E api a before h s = Some (Ok page, s')"
  shows "list_all (\<lambda>s. log_safe E (sig_signature s)) (resp_result (sp_response page))"
proof -
  obtain bod result now where r:
    "env_decode_signatures E bod = Ok \<lparr>env_result = Value result, env_error = None\<rparr>"
    and page: "page = page_of result h now"
    using signatures_loop_page [OF get_signatures_Some [OF assms(2)]] by blast
  have "list_all (\<lambda>s. log_safe E (sig_signature s)) result" using assms(1) r by (auto simp: maskable_service_def)
  then show ?thesis by (auto simp: page take_recent_eq Let_def list_all_iff dest: set_takeWhileD)
qed

lemma index_job_loggable:
  assumes "db_alone E" and "maskable_service E" and "loggable_db E (sy_db s)"
    and "index_job E api job s = Some (r, s')"
  shows "loggable_db E (sy_db s')"
proof -
  note keep = db_alone_keeps [OF assms(1)]
  have paged: "loggable_db E (sy_db s1)"
    if "fetch_signatures_loop E api a mx h cur seen s = Some (q, s1)" for a mx h cur seen q s1
    by (rule fetch_signatures_loop_pages [where P = "loggable_db E", OF keep _ that assms(3)])
       (rule loggable_write [OF page_maskable [OF assms(2)]])
  have "loggable_db E (sy_db s2)"
    if "process_unprocessed_signatures E api a s1 = Some (q, s2)" "loggable_db E (sy_db s1)" for a s1 q s2
    by (rule process_loop_keeps [where P = "loggable_db E", OF keep _ _ _ _ that])
       (simp_all add: loggable_lease loggable_mark, simp_all add: loggable_db_def frame_simps)
  with paged index_job_cases [OF assms(4)] show ?thesis by metis
qed

lemma indexing_ends:
  assumes "unhindered E api" and "db_alone E" and "timed_service E" and "maskable_service E"
    and "mask_addr (cj_address job) \<noteq> None" and "loggable_db E (sy_db s)"
  shows "\<exists>s'. process_claimed_job E api w job s = Some s'"
proof -
  obtain q s1 where q: "fetch_signatures_loop E api (cj_address job) (unwrap_or 1000 (to_usize (cj_tx_limit job)))
      (cj_requested_hours job) None 0 s = Some (q, s1)"
    using fetch_loop_pages [OF assms(1,3) maskable_log_safe [OF assms(5)]] by fast
  have "loggable_db E (sy_db s1)"
    by (rule fetch_signatures_loop_pages [where P = "loggable_db E", OF db_alone_keeps [OF assms(2)] _ q assms(6)])
       (rule loggable_write [OF page_maskable [OF assms(4)]])
  then have "\<exists>x. process_unprocessed_signatures E api (cj_address job) s1 = Some x"
    by (rule process_loop_returns [OF assms(1,2)])
  with q assms(5) have "\<exists>x. index_job E api job s = Some x"
    by (auto simp: index_job_def fetch_signatures_def split: sum.split)
  then show ?thesis
    by (auto simp: process_claimed_job_def Let_def case_prod_beta split: sum.split)
qed

section \<open>Properties\<close>

text \<open>A claimed job and a run of it, for the witnesses.\<close>

definition small_claim :: claimed_job where
  "small_claim = \<lparr>cj_job_id = 1, cj_address = ''owner'', cj_requested_hours = 1, cj_tx_limit = 100\<rparr>"

definition small_run :: "script sys" where
  "small_run = script_start (small_db ''indexing'' False) [(200, ''one''), (200, ''tx'')]"

lemma script_db_alone [simp]: "db_alone script_env" "others_grow script_env" "others_keep script_env P"
  by (simp_all add: db_alone_def others_grow_def others_keep_def)

lemma script_timed [simp]: "timed_service script_env"
  by (simp add: timed_service_def script_signatures_def has_time_def split: if_splits)

lemma script_maskable [simp]: "maskable_service script_env"
  by (simp add: maskable_service_def script_signatures_def split: if_splits)

lemma small_loggable [simp]: "loggable_db script_env (small_db st b)"
  by (simp add: loggable_db_def small_db_def)

lemma small_claim_sel [simp]: "mask_addr (cj_address small_claim) \<noteq> None" "cj_job_id small_claim = 1"
  by (simp_all add: small_claim_def)

lemma small_run_db [simp]: "sy_db small_run = small_db ''indexing'' False"
  by (simp add: small_run_def script_start_def)

lemma script_indexing_ends:
  assumes "loggable_db script_env (sy_db s)"
  obtains s' where "process_claimed_job script_env script_api w small_claim s = Some s'"
  using indexing_ends [OF script_unhindered script_db_alone(1) script_timed script_maskable small_claim_sel(1) assms] by blast

lemma small_run_ends:
  obtains s' where "process_claimed_job script_env script_api w small_claim small_run = Some s'"
  by (rule script_indexing_ends [of small_run]) simp_all

text \<open>C2: nothing is processed before it is stored: if every processed signature has the transaction that
  a fetch of it yields in the tables, with all its events, then this still holds after a whole job was
  indexed, whatever the service answers, whatever statement fails, and whatever the other tasks write
  as long as they keep it and delete nothing.\<close>

theorem processed_is_stored:
  assumes "others_grow E" and "others_keep E (all_stored E api)" and "all_stored E api (sy_db s)"
    and "process_claimed_job E api w job s = Some s'"
  shows "all_stored E api (sy_db s')"
  by (rule stored.claimed_job [OF assms])

theorem processed_is_stored_witness:
  "\<exists>s'. process_claimed_job script_env script_api 1 small_claim small_run = Some s'
      \<and> all_stored script_env script_api (sy_db s')"
proof -
  have start: "all_stored script_env script_api (sy_db small_run)"
    by (simp add: all_stored_def sig_processed_def small_db_def)
  obtain s' where s': "process_claimed_job script_env script_api 1 small_claim small_run = Some s'"
    by (rule small_run_ends)
  with processed_is_stored [OF script_db_alone(2,3) start s'] show ?thesis by blast
qed

text \<open>C30: indexing a job returns: with no other client of the database, other tasks that extend no
  cooldown past some moment, a semaphore that has permits and hands them out, a service that times its
  signatures, and texts that can be masked for the log (the address, the signatures in the tables and
  those the service lists), it ends, whatever the service answers otherwise and whichever statements
  fail.\<close>

theorem indexing_returns:
  assumes "unhindered E api" and "db_alone E" and "timed_service E" and "maskable_service E"
    and "mask_addr (cj_address job) \<noteq> None" and "loggable_db E (sy_db s)"
  shows "\<exists>s'. process_claimed_job E api w job s = Some s'"
  by (rule indexing_ends [OF assms])

theorem indexing_returns_witness:
  "\<exists>s'. process_claimed_job script_env script_api 3 small_claim
      (script_start (small_db ''indexing'' False) [(429, ''busy''), (500, ''oops'')]) = Some s'"
  by (rule indexing_returns [OF script_unhindered script_db_alone(1) script_timed script_maskable small_claim_sel(1)])
     (simp add: script_start_def)

definition no_faults :: "'w env \<Rightarrow> bool" where
  "no_faults E \<longleftrightarrow> (\<forall>d w. t_fault (fst (snd (env_db_turn E d w))) = None)"

lemma update_alone:
  assumes "db_alone E" and "no_faults E"
  obtains t where "fst (update_processing_status_by_job_id E i st s) = fst (update_processing_status_stmt i st t (sy_db s))"
    and "sy_db (snd (update_processing_status_by_job_id E i st s)) = snd (update_processing_status_stmt i st t (sy_db s))"
proof -
  obtain d t w where e: "env_db_turn E (sy_db s) (sy_world s) = (d, t, w)" by (rule prod_cases3)
  with assms have "d = sy_db s" "t_fault t = None"
    unfolding db_alone_def no_faults_def by (metis fst_conv, metis fst_conv snd_conv)
  with e that show thesis
    by (simp add: update_processing_status_by_job_id_def run_db_def case_prod_beta)
qed

lemma index_job_keeps:
  assumes P: "others_keep E P" "\<And>p a t d. P d \<Longrightarrow> P (snd (write_signatures_stmt p a t d))"
      "\<And>a n t d. P d \<Longrightarrow> P (snd (get_unprocessed_signatures_stmt a n t d))"
      "\<And>txs a t d. P d \<Longrightarrow> P (snd (write_transaction_info_stmt txs a t d))"
      "\<And>ps a t d. P d \<Longrightarrow> P (snd (write_token_transfers_stmt (env_from_f64 E) ps a t d))"
      "\<And>a xs t d. P d \<Longrightarrow> P (snd (mark_signatures_processed_stmt a xs t d))"
    and run: "index_job E api job s = Some (r, s')" and s: "P (sy_db s)"
  shows "P (sy_db s')"
proof -
  from run obtain q s1 where q: "fetch_signatures_loop E api (cj_address job)
      (unwrap_or 1000 (to_usize (cj_tx_limit job))) (cj_requested_hours job) None 0 s = Some (q, s1)"
    and r: "q = Ok () \<and> process_unprocessed_signatures E api (cj_address job) s1 = Some (r, s')
      \<or> (\<exists>e. q = Err e \<and> r = Err e \<and> s' = s1)" by (rule index_job_cases)
  have s1: "P (sy_db s1)" by (rule fetch_signatures_loop_keeps [where P = P, OF P(1,2) q s])
  have "P (sy_db s')" if "process_unprocessed_signatures E api (cj_address job) s1 = Some (r, s')"
    by (rule process_loop_keeps [where P = P, OF P(1,3-6) that s1])
  with r s1 show ?thesis by blast
qed

lemma index_job_keeps_jobs:
  assumes "db_alone E" and "db_inv (sy_db s)" and "index_job E api job s = Some (r, s')"
  shows "db_inv (sy_db s') \<and> processing_data (sy_db s') = processing_data (sy_db s)"
  by (rule index_job_keeps [where P = "\<lambda>d. db_inv d \<and> processing_data d = processing_data (sy_db s)",
        OF db_alone_keeps [OF assms(1)] _ _ _ _ _ assms(3)])
     (use assms(2) in \<open>simp_all add: write_inv sigs_claim_inv write_txs_inv write_transfers_inv mark_inv frame_simps\<close>)

text \<open>The column \<open>is_processed\<close> may be null in the schema, but the program never writes a null.\<close>

definition sigs_marked :: "db \<Rightarrow> bool" where
  "sigs_marked d = list_all (\<lambda>s. sr_is_processed s \<noteq> None) (signatures d)"

lemma sigs_marked_write: "sigs_marked d \<Longrightarrow> sigs_marked (snd (write_signatures_stmt p a t d))"
  unfolding sigs_marked_def list_all_iff write_signatures_rows
  by (rule ballI, drule sigtab.ins_only) (auto simp: new_sig_row_def)

lemma index_job_keeps_marked:
  assumes "db_alone E" and "sigs_marked (sy_db s)" and "index_job E api job s = Some (r, s')"
  shows "sigs_marked (sy_db s')"
  by (rule index_job_keeps [where P = sigs_marked, OF db_alone_keeps [OF assms(1)] sigs_marked_write _ _ _ _ assms(3,2)])
     (auto simp: sigs_marked_def sigs_claim_rows mark_rows frame_simps list_all_iff)

lemma job_of_id:
  "db_inv d \<Longrightarrow> j \<in> set (processing_data d) \<Longrightarrow> k \<in> set (processing_data d) \<Longrightarrow> jr_id k = jr_id j \<Longrightarrow> k = j"
  by (auto simp: db_inv_def distinct_map dest: inj_onD)

lemma window_unprocessed_const:
  "job_const k = job_const j \<Longrightarrow> signatures d' = signatures d \<Longrightarrow> window_unprocessed d' k = window_unprocessed d j"
proof -
  assume k: "job_const k = job_const j" and d: "signatures d' = signatures d"
  from k have "in_job_window k = in_job_window j"
    by (auto simp: fun_eq_iff in_job_window_def job_const_def split: option.split)
  with k d show ?thesis by (simp add: window_unprocessed_def job_const_def)
qed

text \<open>How a job is settled: one row changes, in its status and time of update only.\<close>

definition settle_row :: "job_row \<Rightarrow> string \<Rightarrow> micros \<Rightarrow> db \<Rightarrow> db" where
  "settle_row j st n d =
     d\<lparr>processing_data := map (\<lambda>k. if k = j then j\<lparr>jr_status := st, jr_updated_at := n\<rparr> else k) (processing_data d)\<rparr>"

lemma settle_row_member:
  "j \<in> set (processing_data d) \<Longrightarrow> j\<lparr>jr_status := st, jr_updated_at := n\<rparr> \<in> set (processing_data (settle_row j st n d))"
  by (simp add: settle_row_def)

lemma settle_row_unprocessed:
  "window_unprocessed (settle_row j st n d) (j\<lparr>jr_status := st, jr_updated_at := n\<rparr>) = window_unprocessed d j"
  by (rule window_unprocessed_const) (simp_all add: job_const_def settle_row_def)

lemma settle_row_inv: "db_inv d \<Longrightarrow> db_inv (settle_row j st n d)"
  by (rule db_inv_jobs) (auto simp: settle_row_def job_const_def)

lemma settle_exact:
  assumes "db_alone E" and "no_faults E" and "db_inv (sy_db s)" and "j \<in> set (processing_data (sy_db s))"
    and "jr_status j = ''indexing''"
  obtains (blocked) "st = ''ready''" "fst (update_processing_status_by_job_id E (jr_id j) st s) = Ok 0"
      "sy_db (snd (update_processing_status_by_job_id E (jr_id j) st s)) = sy_db s"
    | (moved) n where "st = ''ready'' \<longrightarrow> \<not> window_unprocessed (sy_db s) j"
      "fst (update_processing_status_by_job_id E (jr_id j) st s) = Ok 1"
      "sy_db (snd (update_processing_status_by_job_id E (jr_id j) st s)) = settle_row j st n (sy_db s)"
proof -
  obtain t where t: "fst (update_processing_status_by_job_id E (jr_id j) st s) =
      fst (update_processing_status_stmt (jr_id j) st t (sy_db s))"
    "sy_db (snd (update_processing_status_by_job_id E (jr_id j) st s)) =
      snd (update_processing_status_stmt (jr_id j) st t (sy_db s))"
    by (rule update_alone [OF assms(1,2)])
  show thesis
  proof (cases "st = ''ready'' \<and> window_unprocessed (sy_db s) j")
    case True
    with t blocked show thesis by (simp add: status_update_result [OF assms(3-5)])
  next
    case False
    with t moved [of "t_now t"] show thesis by (auto simp: status_update_result [OF assms(3-5)] settle_row_def)
  qed
qed

lemma process_job_result:
  assumes "db_alone E" and "no_faults E" and "db_inv (sy_db s)" and "j \<in> set (processing_data (sy_db s))"
    and "jr_status j = ''indexing''" and "jr_id j = cj_job_id job"
    and "process_claimed_job E api w job s = Some s'"
  obtains st n r s1 where "index_job E api job s = Some (r, s1)"
    and "st = ''error'' \<or> st = ''ready'' \<and> \<not> window_unprocessed (sy_db s1) j"
    and "sy_db s' = settle_row j st n (sy_db s1)" and "db_inv (sy_db s1)"
    and "processing_data (sy_db s1) = processing_data (sy_db s)"
proof -
  note alone = assms(1,2) and found = that
  have kept: "db_inv (sy_db s1) \<and> processing_data (sy_db s1) = processing_data (sy_db s)"
    if "index_job E api job s = Some (r, s1)" for r s1
    by (rule index_job_keeps_jobs [OF assms(1,3) that])
  have failing: thesis
    if i: "index_job E api job s = Some (r, s1)" and db: "sy_db s2 = sy_db s1"
      and s': "s' = mark_job_error E (cj_job_id job) s2" for r s1 s2
  proof (rule settle_exact [OF alone, of s2 j "''error''"])
    show "db_inv (sy_db s2)" "j \<in> set (processing_data (sy_db s2))" using kept [OF i] assms(4) by (simp_all add: db)
    show "jr_status j = ''indexing''" by (rule assms(5))
    fix n assume "sy_db (snd (update_processing_status_by_job_id E (jr_id j) ''error'' s2)) = settle_row j ''error'' n (sy_db s2)"
    then have "sy_db s' = settle_row j ''error'' n (sy_db s1)" by (simp add: s' mark_job_error_def db flip: assms(6))
    with kept [OF i] show thesis by (intro found [OF i, of "''error''" n]) simp_all
  qed simp
  show thesis
    using assms(7)
  proof (cases rule: process_job_cases)
    case (failed e s1)
    with failing [OF failed(1) refl] show thesis by blast
  next
    case (ready s1 q s2)
    note s1 = kept [OF ready(1)]
    have q: "update_processing_status_by_job_id E (jr_id j) ''ready'' s1 = (q, s2)" using ready(2) assms(6) by simp
    show thesis
    proof (rule settle_exact [OF alone _ _ assms(5), of s1 "''ready''"])
      show "db_inv (sy_db s1)" "j \<in> set (processing_data (sy_db s1))" using s1 assms(4) by simp_all
    next
      assume "fst (update_processing_status_by_job_id E (jr_id j) ''ready'' s1) = Ok 0"
        "sy_db (snd (update_processing_status_by_job_id E (jr_id j) ''ready'' s1)) = sy_db s1"
      with q have "q = Ok 0" "sy_db s2 = sy_db s1" by simp_all
      with ready(3) show thesis by (intro failing [OF ready(1)]) simp_all
    next
      fix n
      assume "''ready'' = ''ready'' \<longrightarrow> \<not> window_unprocessed (sy_db s1) j"
        "fst (update_processing_status_by_job_id E (jr_id j) ''ready'' s1) = Ok 1"
        "sy_db (snd (update_processing_status_by_job_id E (jr_id j) ''ready'' s1)) = settle_row j ''ready'' n (sy_db s1)"
      with q ready(3) s1 show thesis by (intro found [OF ready(1), of "''ready''" n]) simp_all
    qed
  qed
qed

text \<open>Once a job is settled, its row is the settled one.\<close>

lemma settled_row_of:
  assumes "db_inv d" and "j \<in> set (processing_data d)" and "k \<in> set (processing_data (settle_row j st n d))"
    and "jr_id k = jr_id j"
  shows "k = j\<lparr>jr_status := st, jr_updated_at := n\<rparr>"
proof -
  obtain r where r: "r \<in> set (processing_data d)" "k = (if r = j then j\<lparr>jr_status := st, jr_updated_at := n\<rparr> else r)"
    using assms(3) by (auto simp: settle_row_def)
  with job_of_id [OF assms(1,2) r(1)] assms(4) show ?thesis by (auto split: if_splits)
qed

lemma window_complete:
  assumes "sigs_marked d" and "all_stored E api d" and "\<not> window_unprocessed d k"
    and "x \<in> set (signatures d)" and "in_job_window k x"
  shows "\<exists>tx. fetched E api (sr_signature x) tx \<and> tx_stored E d (jr_address k) tx"
proof -
  from assms have "sr_is_processed x \<noteq> Some False" "sr_is_processed x \<noteq> None"
    unfolding window_unprocessed_def sigs_marked_def list_ex_iff list_all_iff by blast+
  then have "sr_is_processed x = Some True" by (cases "sr_is_processed x") auto
  moreover have "sr_owner x = jr_address k" using assms(5) by (simp add: in_job_window_def)
  ultimately have "sig_processed d (jr_address k) (sr_signature x)"
    using assms(4) by (auto simp: sig_processed_def list_ex_iff)
  with assms(2) show ?thesis by (auto simp: all_stored_def)
qed

lemma settle_row_stored: "all_stored E api d \<Longrightarrow> all_stored E api (settle_row j st n d)"
  by (rule all_stored_step [where d = d]) (simp_all add: settle_row_def db_grows_def sig_processed_def)

text \<open>C10: a claimed job is settled: with no other client of the database and no failing statement, other
  tasks that extend no cooldown past some moment, a semaphore that has permits and hands them out, a service that
  times its signatures, and texts that can be masked for the log (the address, the signatures in the
  tables and those the service lists), indexing ends with the job \<open>ready\<close> or in \<open>error\<close>, never still
  being indexed, and it is \<open>ready\<close> only if no signature of its window is left unprocessed.\<close>

theorem claimed_job_settled:
  assumes "unhindered E api" and "db_alone E" and "no_faults E" and "timed_service E" and "maskable_service E"
    and "mask_addr (cj_address job) \<noteq> None" and "loggable_db E (sy_db s)"
    and "db_inv (sy_db s)" and "j \<in> set (processing_data (sy_db s))" and "jr_id j = cj_job_id job"
    and "jr_status j = ''indexing''"
  shows "\<exists>s'. process_claimed_job E api w job s = Some s'
       \<and> (\<exists>k \<in> set (processing_data (sy_db s')). job_const k = job_const j
            \<and> (jr_status k = ''error'' \<or> jr_status k = ''ready'' \<and> \<not> window_unprocessed (sy_db s') k))"
proof -
  obtain s' where s': "process_claimed_job E api w job s = Some s'"
    using indexing_ends [OF assms(1,2,4-7)] by blast
  obtain st n q s1 where r: "st = ''error'' \<or> st = ''ready'' \<and> \<not> window_unprocessed (sy_db s1) j"
    "sy_db s' = settle_row j st n (sy_db s1)" "processing_data (sy_db s1) = processing_data (sy_db s)"
    "index_job E api job s = Some (q, s1)"
    using process_job_result [OF assms(2,3,8,9,11,10) s'] by metis
  let ?k = "j\<lparr>jr_status := st, jr_updated_at := n\<rparr>"
  have "?k \<in> set (processing_data (sy_db s'))"
    unfolding r(2) by (rule settle_row_member) (simp add: r(3) assms(9))
  moreover have "window_unprocessed (sy_db s') ?k = window_unprocessed (sy_db s1) j"
    unfolding r(2) by (rule settle_row_unprocessed)
  moreover have "job_const ?k = job_const j" "jr_status ?k = st" by (simp_all add: job_const_def)
  ultimately show ?thesis using s' r(1) by blast
qed

lemma script_no_faults [simp]: "no_faults script_env"
  by (simp add: no_faults_def script_turn_def)

theorem claimed_job_settled_witness:
  "\<exists>s'. process_claimed_job script_env script_api 1 small_claim small_run = Some s'
     \<and> (\<exists>k \<in> set (processing_data (sy_db s')). jr_id k = 1 \<and> jr_status k \<in> {''error'', ''ready''})"
proof -
  have j: "small_job 1 ''indexing'' \<in> set (processing_data (sy_db small_run))" by (simp add: small_db_def)
  have inv: "db_inv (sy_db small_run)" by (simp add: small_db_inv)
  have "jr_id (small_job 1 ''indexing'') = cj_job_id small_claim" "jr_status (small_job 1 ''indexing'') = ''indexing''"
    by (simp_all add: small_job_def)
  from claimed_job_settled [OF script_unhindered script_db_alone(1) script_no_faults script_timed script_maskable
      small_claim_sel(1) _ inv j this]
  show ?thesis by (fastforce simp: job_const_def small_job_def)
qed


text \<open>A run for the witness: the one signature of the window is already processed and stored, and the
  service has nothing new.\<close>

definition stored_tx :: transaction_result where
  "stored_tx = calculate_token_transfer (\<lambda>x _. x)
     \<lparr>tr_result = tr_result sample_transaction, tr_token_transfer_changes = []\<rparr>"

definition ready_db :: db where
  "ready_db = (small_db ''indexing'' True)\<lparr>transactions := [new_tx_row ''owner'' stored_tx],
     token_transfers := remdups (map (new_transfer_row (env_from_f64 script_env) ''owner'' (tr_result stored_tx))
       (tr_token_transfer_changes stored_tx))\<rparr>"

lemma stored_tx_fetched: "fetched script_env script_api ''s1'' stored_tx"
proof -
  let ?tx = "\<lparr>tr_result = tr_result sample_transaction, tr_token_transfer_changes = []\<rparr>"
  have "map_option fst (fetch_transaction_by_signature script_env script_api ''s1''
      (script_start ready_db [(200, ''tx'')])) = Some (OutcomeSuccess ''s1'' ?tx)"
    by (simp add: script_start_def fetch_transaction_by_signature_def script_attempts try_fetch_transaction_once_def
        send_script classify_reply_def script_envelope_def Let_def)
  then obtain s' where "fetch_transaction_by_signature script_env script_api ''s1''
      (script_start ready_db [(200, ''tx'')]) = Some (OutcomeSuccess ''s1'' ?tx, s')" by auto
  then show ?thesis
    unfolding fetched_def stored_tx_def
    by (intro exI [of _ "script_start ready_db [(200, ''tx'')]"] exI [of _ s'] exI [of _ ?tx]) simp
qed

lemma ready_db_facts:
  "db_inv ready_db" "sigs_marked ready_db" "all_stored script_env script_api ready_db"
  "small_job 1 ''indexing'' \<in> set (processing_data ready_db)"
proof -
  show "db_inv ready_db" "sigs_marked ready_db" "small_job 1 ''indexing'' \<in> set (processing_data ready_db)"
    by (simp_all add: ready_db_def db_inv_def sigs_marked_def small_db_def small_job_def del: not_None_eq)
  have "tx_stored script_env ready_db ''owner'' stored_tx"
    by (simp add: tx_stored_def ready_db_def tx_key_new)
  then show "all_stored script_env script_api ready_db"
    using stored_tx_fetched by (auto simp: all_stored_def sig_processed_def ready_db_def small_db_def)
qed

lemma ready_run:
  "\<exists>s'. process_claimed_job script_env script_api 1 small_claim (script_start ready_db [(200, ''empty'')]) = Some s'
     \<and> processing_data (sy_db s') = [small_job 1 ''ready''] \<and> signatures (sy_db s') = signatures ready_db"
proof -
  let ?s = "script_start ready_db [(200, ''empty'')]"
  obtain x where x: "get_signatures script_env script_api ''owner'' None 1 ?s = Some (Ok (page_of [] 1 3600), x)"
    by (simp add: get_signatures_def script_attempts script_start_def send_script script_signatures_def
        utc_now_def reset_rate_limit_backoff_if_idle_def Let_def)
  have db: "sy_db x = ready_db" using get_signatures_db [OF x] by (simp add: script_start_def)
  have "rs_signatures (take_recent_signatures_at [] 1 3600) = []" by (simp add: take_recent_eq Let_def)
  then have page: "fetch_signatures_loop script_env script_api ''owner'' 100 1 None 0 ?s = Some (Ok (), x)"
    by (subst fetch_signatures_loop.simps) (simp add: x write_signatures_def)
  have none: "chosen_sigs ''owner'' 100 script_turn ready_db = []"
    by (simp add: chosen_sigs_def ready_db_def small_db_def claimable_sig_def script_turn_def)
  have turn: "t_fault script_turn = None" by (simp add: script_turn_def)
  obtain y where y: "get_unprocessed_signatures script_env ''owner'' 100 x = (Ok [], y)" "sy_db y = ready_db"
    by (simp add: get_unprocessed_signatures_def run_db_def db get_unprocessed_signatures_stmt_def none turn)
  have "process_unprocessed_signatures script_env script_api ''owner'' x = Some (Ok (), y)"
    by (subst process_unprocessed_signatures.simps) (simp add: y)
  with page have "index_job script_env script_api small_claim ?s = Some (Ok (), y)"
    by (simp add: index_job_def fetch_signatures_def small_claim_def to_usize_def)
  moreover obtain z where z: "update_processing_status_by_job_id script_env 1 ''ready'' y = (Ok 1, z)"
      "processing_data (sy_db z) = [small_job 1 ''ready'']" "signatures (sy_db z) = signatures ready_db"
    by (simp add: update_processing_status_by_job_id_def run_db_def y(2) update_processing_status_stmt_def
        status_update_applies_def window_unprocessed_def ready_db_def small_db_def small_job_def script_turn_def in_job_window_def)
  ultimately show ?thesis by (simp add: process_claimed_job_def small_claim_def)
qed

text \<open>C1: ready means complete: when nobody else writes, no statement fails and all was well before, a
  job that comes out of its indexing as \<open>ready\<close> has, for every signature of its window, the
  transaction that a fetch of it yields in the tables, with all its events.\<close>

theorem ready_means_complete:
  assumes "db_alone E" and "no_faults E" and "db_inv (sy_db s)" and "sigs_marked (sy_db s)"
    and "all_stored E api (sy_db s)" and "j \<in> set (processing_data (sy_db s))"
    and "jr_status j = ''indexing''" and "jr_id j = cj_job_id job"
    and "process_claimed_job E api w job s = Some s'"
    and "k \<in> set (processing_data (sy_db s'))" and "jr_id k = jr_id j" and "jr_status k = ''ready''"
    and "x \<in> set (signatures (sy_db s'))" and "in_job_window k x"
  shows "\<exists>tx. fetched E api (sr_signature x) tx \<and> tx_stored E (sy_db s') (jr_address k) tx"
proof -
  obtain st n q s1 where r: "index_job E api job s = Some (q, s1)"
    "st = ''error'' \<or> st = ''ready'' \<and> \<not> window_unprocessed (sy_db s1) j"
    "sy_db s' = settle_row j st n (sy_db s1)" "db_inv (sy_db s1)"
    "processing_data (sy_db s1) = processing_data (sy_db s)"
    by (rule process_job_result [OF assms(1-3,6-9)])
  have k: "k = j\<lparr>jr_status := st, jr_updated_at := n\<rparr>"
    using settled_row_of [OF r(4)] assms(6,10,11) r(3,5) by metis
  with assms(12) r(2) have "\<not> window_unprocessed (sy_db s1) j" by auto
  then have all: "\<not> window_unprocessed (sy_db s') k" unfolding r(3) k settle_row_unprocessed .
  have "sigs_marked (sy_db s')"
    using index_job_keeps_marked [OF assms(1,4) r(1)] by (simp add: r(3) sigs_marked_def settle_row_def)
  moreover have "all_stored E api (sy_db s')"
    unfolding r(3) by (rule settle_row_stored, rule stored.indexing [OF _ _ assms(5) r(1)])
      (use assms(1) in \<open>simp_all add: db_alone_def others_grow_def others_keep_def\<close>)
  ultimately show ?thesis by (rule window_complete [OF _ _ all assms(13,14)])
qed

theorem ready_means_complete_witness:
  "\<exists>tx s'. process_claimed_job script_env script_api 1 small_claim (script_start ready_db [(200, ''empty'')]) = Some s'
     \<and> fetched script_env script_api ''s1'' tx \<and> tx_stored script_env (sy_db s') ''owner'' tx"
proof -
  let ?s = "script_start ready_db [(200, ''empty'')]"
  obtain s' where s': "process_claimed_job script_env script_api 1 small_claim ?s = Some s'"
    "processing_data (sy_db s') = [small_job 1 ''ready'']" "signatures (sy_db s') = signatures ready_db"
    using ready_run by blast
  have db: "sy_db ?s = ready_db" by (simp add: script_start_def)
  let ?k = "small_job 1 ''ready''" and ?x = "hd (signatures ready_db)"
  have k: "?k \<in> set (processing_data (sy_db s'))" "jr_id ?k = jr_id (small_job 1 ''indexing'')" "jr_status ?k = ''ready''"
    "?x \<in> set (signatures (sy_db s'))" "in_job_window ?k ?x" "jr_status (small_job 1 ''indexing'') = ''indexing''"
    "jr_id (small_job 1 ''indexing'') = cj_job_id small_claim" "jr_address ?k = ''owner''" "sr_signature ?x = ''s1''"
    by (simp_all add: s' ready_db_def small_db_def in_job_window_def epoch_bigint_def) (simp_all add: small_job_def epoch_bigint_def)
  from ready_means_complete [OF script_db_alone(1) script_no_faults _ _ _ _ k(6,7) s'(1) k(1-5)] s'(1) show ?thesis
    using ready_db_facts by (simp add: db k(8,9))
qed

text \<open>C31: paging is bounded: when the service times its signatures, fetching the signatures of a job
  costs at most one page, plus one for every thousand of \<open>tx_limit\<close>, each within the retry budget.\<close>

theorem page_budget:
  assumes "counts_requests E c" and "\<forall>d w. c (snd (snd (env_db_turn E d w))) = c w" and "timed_service E"
    and "fetch_signatures E api address tx_limit hours s = Some (r, s')"
  shows "sent c s' \<le> sent c s + (tx_limit div 1000 + 1) * (ha_max_rate_limit_retries api + 1)"
proof -
  from assms(4) have "fetch_signatures_loop E api address tx_limit hours None 0 s = Some (r, s')"
    by (auto simp: fetch_signatures_def bind_eq_Some_conv)
  from fetch_loop_requests [OF assms(1) _ assms(3) this] assms(2) show ?thesis by simp
qed

theorem page_budget_witness:
  "\<exists>r s'. fetch_signatures script_env script_api ''owner'' 100 1 small_run = Some (r, s')
     \<and> sent (\<lambda>w. length (snd w)) s' \<le> 2"
proof -
  obtain x where x: "fetch_signatures_loop script_env script_api ''owner'' 100 1 None 0 small_run = Some x"
    using fetch_loop_pages [OF script_unhindered script_timed, of "''owner''" 100 1 None 0 small_run] by auto
  then have "fetch_signatures script_env script_api ''owner'' 100 1 small_run = Some (fst x, snd x)"
    by (simp add: fetch_signatures_def)
  moreover from page_budget [OF script_counts _ script_timed this]
  have "sent (\<lambda>w. length (snd w)) (snd x) \<le> 2" by (simp add: sent_def small_run_def script_start_def)
  ultimately show ?thesis by blast
qed

text \<open>A job whose address cannot be masked (one that is longer than thirteen bytes and has its fifth
  or fifth-last byte inside a character) brings the worker down: indexing it never returns, and the
  job, already claimed, is never settled.\<close>

theorem unmaskable_address_fatal:
  assumes "mask_addr (cj_address job) = None"
  shows "process_claimed_job E api w job s = None"
  by (simp add: process_claimed_job_def index_job_def fetch_signatures_def assms)

theorem unmaskable_address_fatal_witness:
  "process_claimed_job script_env script_api 1
     \<lparr>cj_job_id = 1, cj_address = ''Abcd'' @ map char_of [195 :: nat, 169] @ ''efghijkl'', cj_requested_hours = 1,
       cj_tx_limit = 100\<rparr> small_run = None"
  by (rule unmaskable_address_fatal)
     (simp add: mask_addr_long is_continuation_def)

end
