(* ===== verification/ClaimRace.thy ===== *)
theory ClaimRace
  imports JobsDb
begin

text \<open>
  Concurrent claims. \<open>JobsDb\<close> runs \<open>claim_pending_job\<close> as one step; here it is taken apart the way
  the database runs it at READ COMMITTED: the statement reads a snapshot, chooses and locks a row of
  it (\<open>FOR UPDATE SKIP LOCKED\<close>, which checks the row's own condition again on its current version but
  still answers \<open>NOT EXISTS\<close> from the snapshot), and commits its update. Between these points other
  sessions run theirs.
\<close>

section \<open>Sessions\<close>

text \<open>A session is idle, has taken its snapshot, or holds the lock of a job.\<close>

datatype phase = Idle | Selecting db | Holding i64

text \<open>\<open>ra_claims\<close> is the history of the committed claims: session and job.\<close>

record race =
  ra_db :: db
  ra_phases :: "phase list"
  ra_claims :: "(nat \<times> i64) list"

definition pending_id :: "db \<Rightarrow> i64 \<Rightarrow> bool" where
  "pending_id d i = list_ex (\<lambda>j. jr_id j = i \<and> jr_status j = ''pending'') (processing_data d)"

text \<open>What the locking scan passes over: rows another session holds, and rows whose current version is
  no longer pending.\<close>

definition passed_over :: "race \<Rightarrow> i64 \<Rightarrow> bool" where
  "passed_over r i \<longleftrightarrow> Holding i \<in> set (ra_phases r) \<or> \<not> pending_id (ra_db r) i"

definition set_phase :: "nat \<Rightarrow> phase \<Rightarrow> race \<Rightarrow> race" where
  "set_phase w p r = r\<lparr>ra_phases := (ra_phases r)[w := p]\<rparr>"

definition commit_claim :: "turn \<Rightarrow> nat \<Rightarrow> i64 \<Rightarrow> race \<Rightarrow> race" where
  "commit_claim t w i r =
     set_phase w Idle r\<lparr>ra_db := set_indexing t i (bound_worker_id w) (ra_db r),
       ra_claims := ra_claims r @ [(w, i)]\<rparr>"

text \<open>The steps. A statement that fails, or whose connection is lost, rolls back; the two statuses a
  job is moved to are the ones the indexer passes.\<close>

inductive race_step :: "race \<Rightarrow> race \<Rightarrow> bool" where
  snapshot: "w < length (ra_phases r) \<Longrightarrow> ra_phases r ! w = Idle \<Longrightarrow>
    race_step r (set_phase w (Selecting (ra_db r)) r)"
| nothing: "w < length (ra_phases r) \<Longrightarrow> ra_phases r ! w = Selecting snap \<Longrightarrow> fair_turn t \<Longrightarrow>
    t_locked_job t = passed_over r \<Longrightarrow> next_job t snap = None \<Longrightarrow>
    race_step r (set_phase w Idle r)"
| lock: "w < length (ra_phases r) \<Longrightarrow> ra_phases r ! w = Selecting snap \<Longrightarrow> fair_turn t \<Longrightarrow>
    t_locked_job t = passed_over r \<Longrightarrow> next_job t snap = Some j \<Longrightarrow>
    race_step r (set_phase w (Holding (jr_id j)) r)"
| commit: "w < length (ra_phases r) \<Longrightarrow> ra_phases r ! w = Holding i \<Longrightarrow>
    in_signed 16 (bound_worker_id w) \<Longrightarrow> race_step r (commit_claim t w i r)"
| rollback: "w < length (ra_phases r) \<Longrightarrow> race_step r (set_phase w Idle r)"
| settle: "st \<in> {''ready'', ''error''} \<Longrightarrow>
    race_step r (r\<lparr>ra_db := snd (update_processing_status_stmt i st t (ra_db r))\<rparr>)"
| create: "race_step r (r\<lparr>ra_db := snd (create_processing_job_stmt a l h t (ra_db r))\<rparr>)"

inductive_cases race_step_cases: "race_step r r'"

inductive race_reach :: "race \<Rightarrow> race \<Rightarrow> bool" for r0 where
  here: "race_reach r0 r0"
| step: "race_reach r0 r \<Longrightarrow> race_step r r' \<Longrightarrow> race_reach r0 r'"

definition race_start :: "db \<Rightarrow> nat \<Rightarrow> race" where
  "race_start d n = \<lparr>ra_db = d, ra_phases = replicate n Idle, ra_claims = []\<rparr>"

lemma set_phase_sel [simp]:
  "ra_db (set_phase w p r) = ra_db r" "ra_claims (set_phase w p r) = ra_claims r"
  "ra_phases (set_phase w p r) = (ra_phases r)[w := p]"
  by (simp_all add: set_phase_def)

lemma commit_claim_sel [simp]:
  "ra_db (commit_claim t w i r) = set_indexing t i (bound_worker_id w) (ra_db r)"
  "ra_claims (commit_claim t w i r) = ra_claims r @ [(w, i)]"
  "ra_phases (commit_claim t w i r) = (ra_phases r)[w := Idle]"
  by (simp_all add: commit_claim_def set_phase_def)

section \<open>The invariant\<close>

text \<open>No two sessions hold the same job; a job that is held is still pending and unclaimed; a claimed
  job is claimed once, is a job of the table and never pending again.\<close>

definition one_holder :: "phase list \<Rightarrow> bool" where
  "one_holder ps \<longleftrightarrow> (\<forall>w v i. w < length ps \<longrightarrow> v < length ps \<longrightarrow> ps ! w = Holding i \<longrightarrow>
     ps ! v = Holding i \<longrightarrow> w = v)"

definition race_inv :: "race \<Rightarrow> bool" where
  "race_inv r \<longleftrightarrow> db_inv (ra_db r) \<and> one_holder (ra_phases r)
     \<and> (\<forall>i. Holding i \<in> set (ra_phases r) \<longrightarrow> pending_id (ra_db r) i)
     \<and> distinct (map snd (ra_claims r))
     \<and> (\<forall>i \<in> snd ` set (ra_claims r). i < next_job_id (ra_db r) \<and> \<not> pending_id (ra_db r) i)"

lemma race_invI:
  assumes "db_inv (ra_db r)" and "one_holder (ra_phases r)"
    and "\<And>i. Holding i \<in> set (ra_phases r) \<Longrightarrow> pending_id (ra_db r) i"
    and "distinct (map snd (ra_claims r))"
    and "\<And>i. i \<in> snd ` set (ra_claims r) \<Longrightarrow> i < next_job_id (ra_db r)"
    and "\<And>i. i \<in> snd ` set (ra_claims r) \<Longrightarrow> \<not> pending_id (ra_db r) i"
  shows "race_inv r"
  using assms by (simp add: race_inv_def)

lemma race_invD:
  assumes "race_inv r"
  shows "db_inv (ra_db r)" and "one_holder (ra_phases r)"
    and "Holding i \<in> set (ra_phases r) \<Longrightarrow> pending_id (ra_db r) i"
    and "distinct (map snd (ra_claims r))"
    and "i \<in> snd ` set (ra_claims r) \<Longrightarrow> i < next_job_id (ra_db r)"
    and "i \<in> snd ` set (ra_claims r) \<Longrightarrow> \<not> pending_id (ra_db r) i"
  using assms unfolding race_inv_def by blast+

text \<open>How the statements change which jobs are pending.\<close>

lemma pending_settle:
  "st \<noteq> ''pending'' \<Longrightarrow> pending_id (snd (update_processing_status_stmt i st t d)) k = pending_id d k"
  by (auto simp: pending_id_def update_processing_status_stmt_def status_update_applies_def list_ex_iff)

lemma pending_create:
  "k < next_job_id d \<Longrightarrow> pending_id (snd (create_processing_job_stmt a l h t d)) k = pending_id d k"
  "pending_id d k \<Longrightarrow> pending_id (snd (create_processing_job_stmt a l h t d)) k"
  by (simp_all add: pending_id_def create_processing_job_stmt_def)

lemma pending_claim:
  "pending_id (set_indexing t i w d) k \<longleftrightarrow> k \<noteq> i \<and> pending_id d k"
  by (auto simp: pending_id_def set_indexing_def list_ex_iff)

lemma pending_below: "db_inv d \<Longrightarrow> pending_id d i \<Longrightarrow> i < next_job_id d"
  by (auto simp: pending_id_def db_inv_def list_ex_iff list_all_iff)

lemma indexing_inv: "db_inv d \<Longrightarrow> db_inv (set_indexing t i w d)"
  by (rule db_inv_jobs) (auto simp: set_indexing_def job_const_def)

text \<open>How a session's phase changes who holds what.\<close>

lemma holding_update:
  "Holding i \<in> set (ps[w := p]) \<Longrightarrow> p = Holding i \<or> Holding i \<in> set ps"
  by (drule subsetD [OF set_update_subset_insert]) auto


lemma one_holder_update:
  assumes "one_holder ps" and "\<And>i. p = Holding i \<Longrightarrow> Holding i \<notin> set ps"
  shows "one_holder (ps[w := p])"
  unfolding one_holder_def
proof (intro allI impI)
  fix u v i
  assume u: "u < length (ps[w := p])" "ps[w := p] ! u = Holding i"
    and v: "v < length (ps[w := p])" "ps[w := p] ! v = Holding i"
  have new: "p \<noteq> Holding i" if "k < length ps" "ps ! k = Holding i" for k
    using that assms(2) nth_mem by metis
  from u v have "u < length ps" "v < length ps" by simp_all
  with u(2) v(2) show "u = v"
    using assms(1) new unfolding one_holder_def by (cases "u = w"; cases "v = w") auto
qed

lemma inv_set_phase:
  assumes "race_inv r" and "one_holder ((ra_phases r)[w := p])"
    and "\<And>i. p = Holding i \<Longrightarrow> pending_id (ra_db r) i"
  shows "race_inv (set_phase w p r)"
  using assms(2,3) race_invD [OF assms(1)] by (intro race_invI) (auto dest: holding_update)

lemma inv_commit:
  assumes "race_inv r" and "w < length (ra_phases r)" and "ra_phases r ! w = Holding i"
  shows "race_inv (commit_claim t w i r)"
proof -
  note inv = race_invD [OF assms(1)]
  have i: "Holding i \<in> set (ra_phases r)" using assms(2,3) by (metis nth_mem)
  have gone: "Holding i \<notin> set ((ra_phases r)[w := Idle])"
  proof
    assume "Holding i \<in> set ((ra_phases r)[w := Idle])"
    then obtain v where "v < length (ra_phases r)" "(ra_phases r)[w := Idle] ! v = Holding i"
      by (auto simp: in_set_conv_nth)
    with assms(2,3) inv(2) show False
      unfolding one_holder_def by (cases "v = w") (auto simp: nth_list_update)
  qed
  have "i \<notin> snd ` set (ra_claims r)" using inv(3) [OF i] inv(6) by blast
  moreover have "i < next_job_id (ra_db r)" using pending_below inv(1,3) i by blast
  moreover have "pending_id (ra_db r) k \<and> k \<noteq> i" if "Holding k \<in> set ((ra_phases r)[w := Idle])" for k
    using inv(3) holding_update [OF that] that gone by auto
  moreover have "one_holder ((ra_phases r)[w := Idle])" using inv(2) by (rule one_holder_update) simp
  moreover have "k = i \<or> k \<in> snd ` set (ra_claims r)" if "k \<in> snd ` set (ra_claims (commit_claim t w i r))" for k
    using that by simp
  ultimately show ?thesis
    using inv(1,4-6) by (intro race_invI) (force simp: pending_claim frame_simps indexing_inv)+
qed

lemma race_step_inv: "race_step r r' \<Longrightarrow> race_inv r \<Longrightarrow> race_inv r'"
proof (induction rule: race_step.induct)
  case (snapshot w r)
  then show ?case by (intro inv_set_phase one_holder_update) (simp_all add: race_invD(2))
next
  case (nothing w r snap t)
  then show ?case by (intro inv_set_phase one_holder_update) (simp_all add: race_invD(2))
next
  case (lock w r snap t j)
  have "\<not> passed_over r (jr_id j)" using next_job_Some(3) [OF lock(5,3)] lock(4) by simp
  with lock(6) show ?case
    by (intro inv_set_phase one_holder_update) (auto simp: passed_over_def race_invD(2))
next
  case (commit w r i t)
  then show ?case by (intro inv_commit)
next
  case (rollback w r)
  then show ?case by (intro inv_set_phase one_holder_update) (simp_all add: race_invD(2))
next
  case (settle st r i t)
  then have st: "st \<noteq> ''pending''" by auto
  from settle race_invD [OF settle(2)] show ?case
    by (intro race_invI) (simp_all add: status_inv pending_settle [OF st] frame_simps)
next
  case (create r a l h t)
  note inv = race_invD [OF create]
  have "next_job_id (snd (create_processing_job_stmt a l h t (ra_db r))) = next_job_id (ra_db r) + 1"
    by (simp add: create_processing_job_stmt_def)
  moreover have "i < next_job_id (ra_db r) + 1" if "i \<in> snd ` set (ra_claims r)" for i
    using inv(5) [OF that] by simp
  ultimately show ?case
    using inv by (intro race_invI) (simp_all add: create_inv pending_create)
qed

lemma race_reach_inv: "race_reach r0 r \<Longrightarrow> race_inv r0 \<Longrightarrow> race_inv r"
  by (induction rule: race_reach.induct) (auto intro: race_step_inv)

lemma race_start_inv: "db_inv d \<Longrightarrow> race_inv (race_start d n)"
  by (rule race_invI) (auto simp: race_start_def one_holder_def)

section \<open>Properties\<close>

text \<open>C16: no interleaving of claims with each other and with the other job statements claims a job twice,
  and no two sessions ever hold the same job.\<close>

theorem no_job_claimed_twice:
  assumes "db_inv d" and "race_reach (race_start d n) r"
  shows "distinct (map snd (ra_claims r)) \<and> one_holder (ra_phases r)"
  using race_invD(2,4) [OF race_reach_inv [OF assms(2) race_start_inv [OF assms(1)]]] by blast

lemma small_worker: "w < 2 ^ 15 \<Longrightarrow> in_signed 16 (bound_worker_id w)"
  by (simp add: bound_worker_id_def i32_try_from_def in_signed_def)

text \<open>Two pending jobs of one address, and two workers whose statements overlap.\<close>

definition two_pending :: db where
  "two_pending = \<lparr>processing_data = [small_job 1 ''pending'', small_job 2 ''pending''], next_job_id = 3,
     signatures = [], transactions = [], token_transfers = []\<rparr>"

definition race_turn :: "race \<Rightarrow> turn" where
  "race_turn r = (plain_turn 4000000000)\<lparr>t_locked_job := passed_over r\<rparr>"

definition both_selecting :: race where
  "both_selecting = set_phase 2 (Selecting two_pending) (set_phase 1 (Selecting two_pending) (race_start two_pending 3))"

definition both_holding :: race where
  "both_holding = set_phase 2 (Holding 2) (set_phase 1 (Holding 1) both_selecting)"

lemma two_pending_inv: "db_inv two_pending"
  by (simp add: db_inv_def two_pending_def small_job_def)

lemma race_turn_sel [simp]: "fair_turn (race_turn r)" "t_locked_job (race_turn r) = passed_over r"
  by (simp_all add: race_turn_def fair_turn_def plain_turn_def)

lemma two_pending_next:
  assumes "\<not> passed_over r 2"
  shows "next_job (race_turn r) two_pending = Some (small_job (if passed_over r 1 then 2 else 1) ''pending'')"
  using assms by (simp add: next_job_def race_turn_def plain_turn_def two_pending_def small_job_def claimable_job_def
        job_active_def)

lemma both_reach_holding: "race_reach (race_start two_pending 3) both_holding"
proof -
  let ?r0 = "race_start two_pending 3"
  let ?r1 = "set_phase 1 (Selecting two_pending) ?r0"
  let ?r3 = "set_phase 1 (Holding 1) both_selecting"
  have p: "pending_id two_pending 1" "pending_id two_pending 2"
    by (simp_all add: pending_id_def two_pending_def small_job_def)
  have s1: "race_step ?r0 ?r1"
    using race_step.snapshot [of 1 ?r0] by (simp add: race_start_def)
  have s2: "race_step ?r1 both_selecting"
    using race_step.snapshot [of 2 ?r1] by (simp add: race_start_def both_selecting_def numeral_3_eq_3)
  have s3: "race_step both_selecting ?r3"
    using race_step.lock [of 1 both_selecting two_pending "race_turn both_selecting" "small_job 1 ''pending''"]
      two_pending_next [of both_selecting] p
    by (simp add: both_selecting_def race_start_def passed_over_def numeral_3_eq_3 numeral_2_eq_2)
       (simp add: small_job_def)
  have s4: "race_step ?r3 both_holding"
    using race_step.lock [of 2 ?r3 two_pending "race_turn ?r3" "small_job 2 ''pending''"]
      two_pending_next [of ?r3] p
    by (simp add: both_holding_def both_selecting_def race_start_def passed_over_def numeral_3_eq_3 numeral_2_eq_2)
       (simp add: small_job_def)
  show ?thesis by (rule race_reach.step [OF race_reach.step [OF race_reach.step [OF race_reach.step [OF race_reach.here s1] s2] s3] s4])
qed

theorem no_job_claimed_twice_witness:
  "race_reach (race_start two_pending 3) both_holding \<and> one_holder (ra_phases both_holding)
   \<and> map snd (ra_claims both_holding) = []"
  using no_job_claimed_twice [OF two_pending_inv both_reach_holding] both_reach_holding
  by (simp add: both_holding_def both_selecting_def race_start_def)

text \<open>C18: but the \<open>NOT EXISTS\<close> guard does not survive concurrency: two workers whose claims overlap can
  end up with two jobs of one address, both being indexed, although the address had none before.\<close>

theorem overlapping_claims_share_address:
  "\<exists>d r. db_inv d \<and> one_active d \<and> race_reach (race_start d 3) r \<and> ra_claims r = [(1, 1), (2, 2)]
     \<and> list_all (\<lambda>j. jr_address j = ''owner'' \<and> jr_status j = ''indexing'') (processing_data (ra_db r))
     \<and> \<not> one_active (ra_db r)"
proof -
  let ?t = "plain_turn 4000000000"
  let ?r5 = "commit_claim ?t 1 1 both_holding" and ?r6 = "commit_claim ?t 2 2 (commit_claim ?t 1 1 both_holding)"
  have phases: "ra_phases both_holding = [Idle, Holding 1, Holding 2]"
    by (simp add: both_holding_def both_selecting_def race_start_def numeral_3_eq_3 numeral_2_eq_2)
  have "race_step both_holding ?r5" by (rule race_step.commit) (simp_all add: phases small_worker)
  moreover have "race_step ?r5 ?r6" by (rule race_step.commit) (simp_all add: phases small_worker)
  ultimately have reach: "race_reach (race_start two_pending 3) ?r6"
    using both_reach_holding by (blast intro: race_reach.step)
  have one: "one_active two_pending" by (simp add: one_active_def two_pending_def small_job_def)
  have db: "ra_db both_holding = two_pending" "ra_claims both_holding = []"
    by (simp_all add: both_holding_def both_selecting_def race_start_def)
  have "list_all (\<lambda>j. jr_address j = ''owner'' \<and> jr_status j = ''indexing'') (processing_data (ra_db ?r6))"
    "\<not> one_active (ra_db ?r6)" "ra_claims ?r6 = [(1, 1), (2, 2)]"
    by (simp_all add: db set_indexing_def one_active_def) (simp_all add: two_pending_def small_job_def)
  with two_pending_inv one reach show ?thesis by blast
qed










end
