(* ===== verification/Settings.thy ===== *)
theory Settings
  imports Client
begin

text \<open>
  The settings of \<open>src/settings.rs\<close> and what is built from them: the RPC endpoint, the warnings at
  start-up and the client of \<open>HeliusApi::new\<close>. Reading the settings from files and environment is
  the \<open>config\<close> crate's; a socket address and a path are the texts they were parsed from.
\<close>

record database_settings =
  ds_url :: string
  ds_max_connections :: nat

record rpc_settings =
  rp_api_key :: string
  rp_url :: string
  rp_rps :: nat
  rp_max_concurrent :: usize
  rp_max_rate_limit_retries :: usize

record server_settings =
  sv_bind :: string
  sv_cors_allowed_origins :: "string list"

record worker_settings =
  ws_count :: nat

record logging_settings =
  lg_level :: string
  lg_dir :: string

record settings =
  st_database :: database_settings
  st_rpc :: rpc_settings
  st_server :: server_settings
  st_workers :: worker_settings
  st_logging :: logging_settings

definition rpc_endpoint :: "settings \<Rightarrow> string" where
  "rpc_endpoint c = rp_url (st_rpc c) @ rp_api_key (st_rpc c)"

text \<open>The warnings of \<open>log_loaded_settings\<close>, in order.\<close>

definition loaded_warnings :: "settings \<Rightarrow> string list" where
  "loaded_warnings c =
     (if ds_url (st_database c) = [] then [''Database URL is empty''] else []) @
     (if rp_api_key (st_rpc c) = [] then [''RPC API key is empty''] else [])"

section \<open>The client of the settings\<close>

text \<open>\<open>RPS ne mozhet byt' raven nulyu\<close> in Cyrillic, as UTF-8.\<close>

definition rps_zero_message :: string where
  "rps_zero_message = ''RPS '' @ map char_of
       [208 :: nat, 189, 208, 181, 32, 208, 188, 208, 190, 208, 182, 208, 181, 209, 130, 32,
        208, 177, 209, 139, 209, 130, 209, 140, 32, 209, 128, 208, 176, 208, 178, 208,
        181, 208, 189, 32, 208, 189, 209, 131, 208, 187, 209, 142]"

text \<open>A quota of zero requests per second is refused; \<open>max_permits\<close> is the largest semaphore the
  library makes, and it panics (\<open>None\<close>) on a larger one. The quota and the permits themselves are the
  library's state, behind \<open>env_acquire\<close>.\<close>

definition helius_new ::
    "usize \<Rightarrow> nat \<Rightarrow> usize \<Rightarrow> usize \<Rightarrow> string \<Rightarrow> (helius_api \<times> limiter) result option" where
  "helius_new max_permits rps max_concurrent max_rate_limit_retries endpoint =
     (if rps = 0 then Some (Err rps_zero_message)
      else if max_permits < max_concurrent then None
      else Some (Ok (\<lparr>ha_rpc_endpoint = endpoint, ha_max_concurrent = max_concurrent,
             ha_max_rate_limit_retries = max_rate_limit_retries\<rparr>,
             \<lparr>lm_backoff = new_backoff (Finite 500) (Finite 10000) (Finite 2), lm_until = None, lm_last = None\<rparr>)))"

lemma helius_new_Ok:
  assumes "helius_new mp rps mc mr url = Some (Ok (api, l))"
  shows "0 < rps" and "ha_rpc_endpoint api = url" and "ha_max_rate_limit_retries api = mr"
    and "ha_max_concurrent api = mc"
    and "lm_until l = None" and "lm_last l = None"
    and "lm_backoff l = new_backoff (Finite 500) (Finite 10000) (Finite 2)"
  using assms by (auto simp: helius_new_def split: if_splits)

end
