(* ===== verification/Workers.thy ===== *)
theory Workers
  imports IndexerProps ClaimRace Settings
begin

text \<open>
  The processes of \<open>src/main.rs\<close>: start-up, the numbering of the workers, and the loop in which a
  worker claims a job, backing off while there is none, and indexes it. The loop never ends; \<open>n\<close>
  rounds of it handle \<open>n\<close> jobs.
\<close>

section \<open>The worker\<close>

definition idle_wait :: "'w env \<Rightarrow> worker_backoff \<Rightarrow> 'w sys \<Rightarrow> worker_backoff \<times> 'w sys" where
  "idle_wait E b s =
     (let (sample, w) = env_sample E (sy_world s);
          (delay, b) = step_and_get_sleep_duration sample b
      in (b, sleep E delay (s\<lparr>sy_world := w\<rparr>)))"

partial_function (option) claim_loop ::
    "'w env \<Rightarrow> nat \<Rightarrow> worker_backoff \<Rightarrow> 'w sys \<Rightarrow> (claimed_job \<times> worker_backoff \<times> 'w sys) option" where
  "claim_loop E worker_id b s =
     (let (claimed, s) = claim_pending_job E worker_id s
      in case claimed of
           Ok (Some job) \<Rightarrow> Some (job, reset_backoff b, s)
         | Ok None \<Rightarrow> (let (b, s) = idle_wait E b s in claim_loop E worker_id b s)
         | Err e \<Rightarrow> (let (b, s) = idle_wait E b s in claim_loop E worker_id b s))"

definition worker_round ::
    "'w env \<Rightarrow> helius_api \<Rightarrow> nat \<Rightarrow> worker_backoff \<times> 'w sys \<Rightarrow> (worker_backoff \<times> 'w sys) option" where
  "worker_round E api worker_id bs = do {
     (job, b, s) \<leftarrow> claim_loop E worker_id (fst bs) (snd bs);
     s \<leftarrow> process_claimed_job E api worker_id job s;
     Some (b, s)
   }"

fun worker_rounds ::
    "nat \<Rightarrow> 'w env \<Rightarrow> helius_api \<Rightarrow> nat \<Rightarrow> worker_backoff \<times> 'w sys \<Rightarrow> (worker_backoff \<times> 'w sys) option" where
  "worker_rounds 0 E api worker_id bs = Some bs"
| "worker_rounds (Suc n) E api worker_id bs =
     do { bs \<leftarrow> worker_round E api worker_id bs; worker_rounds n E api worker_id bs }"

definition worker_loop ::
    "nat \<Rightarrow> 'w env \<Rightarrow> helius_api \<Rightarrow> nat \<Rightarrow> 'w sys \<Rightarrow> (worker_backoff \<times> 'w sys) option" where
  "worker_loop n E api worker_id s =
     worker_rounds n E api worker_id (new_backoff (Finite 200) (Finite 2000) (Finite 2), s)"

section \<open>Start-up\<close>

datatype task = ServerTask string "string list" | WorkerTask nat

definition worker_ids :: "settings \<Rightarrow> nat list" where
  "worker_ids c = [1..<Suc (ws_count (st_workers c))]"

fun spawn_workers :: "'w env \<Rightarrow> nat list \<Rightarrow> 'w sys \<Rightarrow> task list \<times> 'w sys" where
  "spawn_workers E [] s = ([], s)"
| "spawn_workers E (i # is) s =
     (let (ts, s) = spawn_workers E is (sleep E 700000000 s) in (WorkerTask i # ts, s))"

text \<open>\<open>connect\<close> and \<open>run_migrations\<close> are the database library's; the state is the one before the client's own
  part of it was set up. \<open>None\<close> is the panic of the client's constructor.\<close>

definition start_up ::
    "usize \<Rightarrow> ('w \<Rightarrow> unit result \<times> 'w) \<Rightarrow> ('w sys \<Rightarrow> unit result \<times> 'w sys) \<Rightarrow> 'w env \<Rightarrow> settings \<Rightarrow> 'w sys \<Rightarrow>
       ((helius_api \<times> task list) result \<times> 'w sys) option" where
  "start_up max_permits connect run_migrations E c s = do {
     made \<leftarrow> helius_new max_permits (rp_rps (st_rpc c)) (rp_max_concurrent (st_rpc c))
               (rp_max_rate_limit_retries (st_rpc c)) (rpc_endpoint c);
     case made of
       Err e \<Rightarrow> Some (Err e, s)
     | Ok (api, l) \<Rightarrow>
         (case database_new connect E (s\<lparr>sy_limiter := l\<rparr>) of
            (Err e, s) \<Rightarrow> Some (Err e, s)
          | (Ok _, s) \<Rightarrow>
              (case migrate_database run_migrations s of
                 (Err e, s) \<Rightarrow> Some (Err e, s)
               | (Ok _, s) \<Rightarrow>
                   let (ts, s) = spawn_workers E (worker_ids c) s
                   in Some (Ok (api, ServerTask (sv_bind (st_server c)) (sv_cors_allowed_origins (st_server c)) # ts), s)))
   }"

text \<open>\<open>main\<close> then waits for the server or for all the workers, whichever comes first; \<open>ended\<close> says which
  of the tasks have, by returning or by a panic.\<close>

fun is_server :: "task \<Rightarrow> bool" where
  "is_server (ServerTask bind_addr origins) = True"
| "is_server (WorkerTask i) = False"

definition main_returns :: "(task \<Rightarrow> bool) \<Rightarrow> task list \<Rightarrow> bool" where
  "main_returns ended ts =
     (list_all ended (filter is_server ts) \<or> list_all ended (filter (\<lambda>t. \<not> is_server t) ts))"

section \<open>One round\<close>

definition no_locks :: "'w env \<Rightarrow> bool" where
  "no_locks E \<longleftrightarrow> (\<forall>d w i. \<not> t_locked_job (fst (snd (env_db_turn E d w))) i)"

definition pending_jobs :: "db \<Rightarrow> nat" where
  "pending_jobs d = length (filter (\<lambda>j. jr_status j = ''pending'') (processing_data d))"

definition no_indexing :: "db \<Rightarrow> bool" where
  "no_indexing d = list_all (\<lambda>j. jr_status j \<noteq> ''indexing'') (processing_data d)"

text \<open>What a job may become: settled if it was pending, the same otherwise.\<close>

definition job_settled :: "job_row \<Rightarrow> job_row \<Rightarrow> bool" where
  "job_settled j k \<longleftrightarrow> job_const k = job_const j
     \<and> (k = j \<or> jr_status j = ''pending'' \<and> (jr_status k = ''ready'' \<or> jr_status k = ''error''))"

lemma job_settled_trans: "job_settled i j \<Longrightarrow> job_settled j k \<Longrightarrow> job_settled i k"
  by (auto simp: job_settled_def)

lemma claim_available:
  assumes "db_alone E" and "no_faults E" and "no_locks E" and "db_inv (sy_db s)"
    and "in_signed 16 (bound_worker_id w)" and "no_indexing (sy_db s)" and "0 < pending_jobs (sy_db s)"
  obtains job j t s1 where "claim_loop E w b s = Some (job, reset_backoff b, s1)"
    and "j \<in> set (processing_data (sy_db s))" and "jr_status j = ''pending''"
    and "cj_job_id job = jr_id j" and "cj_address job = jr_address j"
    and "sy_db s1 = set_indexing t (jr_id j) (bound_worker_id w) (sy_db s)"
proof -
  obtain d t x where e: "env_db_turn E (sy_db s) (sy_world s) = (d, t, x)" by (rule prod_cases3)
  from assms(1) e have d: "d = sy_db s" "fair_turn t" unfolding db_alone_def by (metis fst_conv, metis fst_conv snd_conv)
  from assms(2,3) e have t: "t_fault t = None" "\<And>i. \<not> t_locked_job t i"
    unfolding no_faults_def no_locks_def by (metis fst_conv snd_conv)+
  from assms(7) obtain k where k: "k \<in> set (processing_data (sy_db s))" "jr_status k = ''pending''"
    by (auto simp: pending_jobs_def filter_empty_conv)
  then have "claimable_job (sy_db s) k"
    using assms(6) by (auto simp: claimable_job_def job_active_def no_indexing_def list_ex_iff list_all_iff)
  then obtain j where j: "next_job t (sy_db s) = Some j"
    using next_job_None [OF _ d(2) k(1)] t(2) by (cases "next_job t (sy_db s)") auto
  let ?job = "\<lparr>cj_job_id = jr_id j, cj_address = jr_address j, cj_requested_hours = jr_requested_hours j,
      cj_tx_limit = jr_tx_limit j\<rparr>"
  let ?s1 = "s\<lparr>sy_db := set_indexing t (jr_id j) (bound_worker_id w) (sy_db s), sy_world := x\<rparr>"
  have "claim_pending_job E w s = (Ok (Some ?job), ?s1)"
    by (simp add: claim_pending_job_def run_db_def e d(1) t(1) claim_pending_job_stmt_def j assms(5))
  then have "claim_loop E w b s = Some (?job, reset_backoff b, ?s1)"
    by (subst claim_loop.simps) simp
  with next_job_Some(1,2) [OF j d(2)] show thesis by (intro that) (auto simp: claimable_job_def)
qed

text \<open>The rows of the table when the claimed job has been settled.\<close>

lemma round_rows:
  assumes "db_inv d" and "j \<in> set (processing_data d)" and "jr_status j = ''pending''"
    and "j' = j\<lparr>jr_status := ''indexing'', jr_worker_id := Some v, jr_updated_at := m\<rparr>"
  shows "map (\<lambda>k. if k = j' then h j' else k)
      (map (\<lambda>r. if jr_id r = jr_id j then r\<lparr>jr_status := ''indexing'', jr_worker_id := Some v, jr_updated_at := m\<rparr> else r)
        (processing_data d)) = map (\<lambda>r. if jr_id r = jr_id j then h j' else r) (processing_data d)"
  unfolding map_map
proof (rule map_cong [OF refl])
  fix r assume r: "r \<in> set (processing_data d)"
  show "((\<lambda>k. if k = j' then h j' else k) \<circ>
      (\<lambda>r. if jr_id r = jr_id j then r\<lparr>jr_status := ''indexing'', jr_worker_id := Some v, jr_updated_at := m\<rparr> else r)) r =
      (if jr_id r = jr_id j then h j' else r)"
  proof (cases "jr_id r = jr_id j")
    case True
    with job_of_id [OF assms(1,2) r] assms(4) show ?thesis by simp
  next
    case False
    then have "r \<noteq> j'" using assms(4) by auto
    with False show ?thesis by simp
  qed
qed

lemma count_changed:
  assumes "distinct (map f xs)" and "x \<in> set xs" and "P x" and "\<not> P y"
  shows "Suc (length (filter P (map (\<lambda>z. if f z = f x then y else z) xs))) = length (filter P xs)"
  using assms
proof (induction xs)
  case (Cons a xs)
  show ?case
  proof (cases "a = x")
    case True
    with Cons.prems have "map (\<lambda>z. if f z = f x then y else z) xs = xs" by (intro map_idI) (auto simp: image_iff)
    with True Cons.prems show ?thesis by simp
  next
    case False
    with Cons.prems have "x \<in> set xs" "f a \<noteq> f x" by (auto simp: image_iff)
    with Cons show ?thesis by simp
  qed
qed simp

lemma round_settles:
  assumes "unhindered E api" and "db_alone E" and "no_faults E" and "no_locks E" and "timed_service E"
    and "in_signed 16 (bound_worker_id w)" and "db_inv (sy_db s)" and "no_indexing (sy_db s)"
    and "0 < pending_jobs (sy_db s)"
    and "\<And>j. j \<in> set (processing_data (sy_db s)) \<Longrightarrow> mask_addr (jr_address j) \<noteq> None"
    and "maskable_service E" and "loggable_db E (sy_db s)"
  obtains b' s' where "worker_round E api w (b, s) = Some (b', s')"
    and "list_all2 job_settled (processing_data (sy_db s)) (processing_data (sy_db s'))"
    and "db_inv (sy_db s')" and "no_indexing (sy_db s')"
    and "Suc (pending_jobs (sy_db s')) = pending_jobs (sy_db s)" and "loggable_db E (sy_db s')"
proof -
  let ?rows = "processing_data (sy_db s)"
  obtain job j t s1 where c: "claim_loop E w b s = Some (job, reset_backoff b, s1)"
    and j: "j \<in> set ?rows" "jr_status j = ''pending''"
    and job: "cj_job_id job = jr_id j" "cj_address job = jr_address j"
    and s1: "sy_db s1 = set_indexing t (jr_id j) (bound_worker_id w) (sy_db s)"
    by (rule claim_available [OF assms(2-4,7,6,8,9)])
  define j' where "j' = j\<lparr>jr_status := ''indexing'', jr_worker_id := Some (bound_worker_id w), jr_updated_at := t_now t\<rparr>"
  have j': "j' \<in> set (processing_data (sy_db s1))" "jr_status j' = ''indexing''" "jr_id j' = cj_job_id job"
    using j(1) by (force simp: s1 set_indexing_def j'_def, simp_all add: j'_def job)
  have inv1: "db_inv (sy_db s1)" using assms(7) unfolding s1 by (rule db_inv_jobs) (auto simp: set_indexing_def job_const_def)
  have "mask_addr (cj_address job) \<noteq> None" using assms(10) j(1) job(2) by simp
  moreover have log1: "loggable_db E (sy_db s1)"
    using assms(12) by (simp add: s1 loggable_db_def set_indexing_def)
  ultimately obtain s' where s': "process_claimed_job E api w job s1 = Some s'"
    using indexing_ends [OF assms(1,2,5,11)] by blast
  obtain st n q s2 where r: "index_job E api job s1 = Some (q, s2)"
    "st = ''error'' \<or> st = ''ready'' \<and> \<not> window_unprocessed (sy_db s2) j'"
    "sy_db s' = settle_row j' st n (sy_db s2)" "db_inv (sy_db s2)"
    "processing_data (sy_db s2) = processing_data (sy_db s1)"
    by (rule process_job_result [OF assms(2,3) inv1 j'(1,2,3) s'])
  let ?k = "j'\<lparr>jr_status := st, jr_updated_at := n\<rparr>"
  have rows: "processing_data (sy_db s') = map (\<lambda>r. if jr_id r = jr_id j then ?k else r) ?rows"
    using round_rows [OF assms(7) j j'_def, of "\<lambda>j. j\<lparr>jr_status := st, jr_updated_at := n\<rparr>"]
    by (simp add: r(3,5) settle_row_def s1 set_indexing_def)
  have ids: "distinct (map jr_id ?rows)" using assms(7) by (simp add: db_inv_def)
  have k: "jr_status ?k \<noteq> ''pending''" "jr_status ?k \<noteq> ''indexing''" "job_settled j ?k"
    using r(2) j(2) by (auto simp: job_settled_def job_const_def j'_def)
  show thesis
  proof
    show "worker_round E api w (b, s) = Some (reset_backoff b, s')" by (simp add: worker_round_def c s')
    show "list_all2 job_settled ?rows (processing_data (sy_db s'))"
      unfolding rows list_all2_map2 using job_of_id [OF assms(7) j(1)] k(3)
      by (auto simp: list_all2_same job_settled_def)
    show "db_inv (sy_db s')" unfolding r(3) by (rule settle_row_inv [OF r(4)])
    show "loggable_db E (sy_db s')"
      using index_job_loggable [OF assms(2,11) log1 r(1)] by (simp add: r(3) loggable_db_def settle_row_def)
    show "no_indexing (sy_db s')" using assms(8) k(2) by (auto simp: no_indexing_def rows list_all_iff)
    show "Suc (pending_jobs (sy_db s')) = pending_jobs (sy_db s)"
      unfolding pending_jobs_def rows by (rule count_changed [OF ids j(1)]) (use j(2) k(1) in simp_all)
  qed
qed

lemma settled_addresses:
  "list_all2 job_settled js ks \<Longrightarrow> (\<And>j. j \<in> set js \<Longrightarrow> P (jr_address j)) \<Longrightarrow> k \<in> set ks \<Longrightarrow> P (jr_address k)"
  by (auto simp: list_all2_conv_all_nth in_set_conv_nth job_settled_def job_const_def) metis

lemma settled_trans:
  "list_all2 job_settled js ks \<Longrightarrow> list_all2 job_settled ks ls \<Longrightarrow> list_all2 job_settled js ls"
  by (rule list_all2_trans [OF job_settled_trans])

section \<open>Properties\<close>

text \<open>C11: a worker drains the queue: with no other client of the database, no failing statement and no
  locked row, other tasks that extend no cooldown past some moment, a semaphore that has permits and
  hands them out, a service that times its signatures, texts that can be masked for the log (the addresses, the
  signatures in the tables and those the service lists), a worker number that fits the column, and no
  job being indexed at the start, as many rounds as there are pending jobs end, and leave every one of
  them ready or in error, no job pending or being indexed, and every other job as it was.\<close>

theorem worker_drains_queue:
  assumes "unhindered E api" and "db_alone E" and "no_faults E" and "no_locks E" and "timed_service E"
    and "in_signed 16 (bound_worker_id w)" and "maskable_service E"
    and "db_inv (sy_db s)" and "no_indexing (sy_db s)"
    and "\<forall>j \<in> set (processing_data (sy_db s)). mask_addr (jr_address j) \<noteq> None" and "loggable_db E (sy_db s)"
  shows "\<exists>b' s'. worker_rounds (pending_jobs (sy_db s)) E api w (b, s) = Some (b', s')
     \<and> list_all2 job_settled (processing_data (sy_db s)) (processing_data (sy_db s'))
     \<and> pending_jobs (sy_db s') = 0 \<and> no_indexing (sy_db s')"
  using assms(8-11)
proof (induction "pending_jobs (sy_db s)" arbitrary: b s)
  case 0
  then show ?case by (simp add: list_all2_same job_settled_def)
next
  case (Suc n)
  obtain b1 s1 where r: "worker_round E api w (b, s) = Some (b1, s1)"
    "list_all2 job_settled (processing_data (sy_db s)) (processing_data (sy_db s1))"
    "db_inv (sy_db s1)" "no_indexing (sy_db s1)" "Suc (pending_jobs (sy_db s1)) = pending_jobs (sy_db s)"
    "loggable_db E (sy_db s1)"
    by (rule round_settles [OF assms(1-6) Suc.prems(1,2) _ _ assms(7) Suc.prems(4)])
      (use Suc.hyps(2) Suc.prems(3) in auto)
  then have n: "n = pending_jobs (sy_db s1)" using Suc.hyps(2) by simp
  have "\<forall>k \<in> set (processing_data (sy_db s1)). mask_addr (jr_address k) \<noteq> None"
    using settled_addresses [OF r(2), of "\<lambda>a. mask_addr a \<noteq> None"] Suc.prems(3) by blast
  from Suc.hyps(1) [OF n r(3,4) this r(6)] obtain b' s' where rest:
    "worker_rounds n E api w (b1, s1) = Some (b', s')"
    "list_all2 job_settled (processing_data (sy_db s1)) (processing_data (sy_db s'))"
    "pending_jobs (sy_db s') = 0" "no_indexing (sy_db s')" unfolding n by blast
  have "worker_rounds (pending_jobs (sy_db s)) E api w (b, s) = Some (b', s')"
    by (simp add: r(1) rest(1) flip: Suc.hyps(2))
  with settled_trans [OF r(2) rest(2)] rest(3,4) show ?case by blast
qed

lemma script_no_locks [simp]: "no_locks script_env"
  by (simp add: no_locks_def script_turn_def)

theorem worker_drains_queue_witness:
  "\<exists>b' s'. worker_rounds 2 script_env script_api 1 (new_backoff (Finite 200) (Finite 2000) (Finite 2),
       script_start two_pending [(200, ''one''), (200, ''tx''), (200, ''empty'')]) = Some (b', s')
     \<and> pending_jobs (sy_db s') = 0 \<and> no_indexing (sy_db s')"
proof -
  let ?s = "script_start two_pending [(200, ''one''), (200, ''tx''), (200, ''empty'')]"
  have db: "sy_db ?s = two_pending" by (simp add: script_start_def)
  have s: "db_inv (sy_db ?s)" "no_indexing (sy_db ?s)" "pending_jobs (sy_db ?s) = 2"
    "\<forall>j \<in> set (processing_data (sy_db ?s)). mask_addr (jr_address j) \<noteq> None"
    "loggable_db script_env (sy_db ?s)"
    by (simp_all add: db two_pending_inv) (simp_all add: two_pending_def small_job_def no_indexing_def pending_jobs_def loggable_db_def)
  have w: "in_signed 16 (bound_worker_id 1)" by (rule small_worker) simp
  show ?thesis
    using worker_drains_queue [OF script_unhindered script_db_alone(1) script_no_faults script_no_locks script_timed w
        script_maskable s(1,2,4,5)]
    unfolding s(3) by blast
qed

lemma spawned: "fst (spawn_workers E is s) = map WorkerTask is"
  by (induction "is" arbitrary: s) (simp_all add: case_prod_beta Let_def)

lemma startup_facts:
  assumes "start_up max_permits connect run_migrations E c s = Some (r, s')"
  shows "(\<forall>api ts. r = Ok (api, ts) \<longrightarrow> 0 < rp_rps (st_rpc c)
        \<and> ha_rpc_endpoint api = rp_url (st_rpc c) @ rp_api_key (st_rpc c)
        \<and> ha_max_rate_limit_retries api = rp_max_rate_limit_retries (st_rpc c)
        \<and> ts = ServerTask (sv_bind (st_server c)) (sv_cors_allowed_origins (st_server c)) #
               map WorkerTask [1..<Suc (ws_count (st_workers c))])
     \<and> (rp_rps (st_rpc c) = 0 \<longrightarrow> r = Err rps_zero_message \<and> s' = s)"
proof (cases "rp_rps (st_rpc c) = 0")
  case True
  with assms show ?thesis by (auto simp: start_up_def helius_new_def)
next
  case False
  obtain m where m: "helius_new max_permits (rp_rps (st_rpc c)) (rp_max_concurrent (st_rpc c))
      (rp_max_rate_limit_retries (st_rpc c)) (rpc_endpoint c) = Some m"
    using assms by (auto simp: start_up_def bind_eq_Some_conv)
  show ?thesis
  proof (cases m)
    case (Inl e)
    with assms m False show ?thesis by (auto simp: start_up_def)
  next
    case (Inr al)
    obtain api l where al: "al = (api, l)" by (cases al)
    note api = helius_new_Ok [OF m [unfolded Inr al]]
    obtain q s1 where q: "database_new connect E (s\<lparr>sy_limiter := l\<rparr>) = (q, s1)" by fastforce
    obtain g s2 where g: "migrate_database run_migrations s1 = (g, s2)" by fastforce
    obtain ts s3 where sp: "spawn_workers E (worker_ids c) s2 = (ts, s3)" by fastforce
    have "ts = map WorkerTask (worker_ids c)" using spawned [of E "worker_ids c" s2] sp by simp
    then have ts: "ts = map WorkerTask [1..<Suc (ws_count (st_workers c))]" by (simp only: worker_ids_def)
    have url: "ha_rpc_endpoint api = rp_url (st_rpc c) @ rp_api_key (st_rpc c)" using api(2) by (simp add: rpc_endpoint_def)
    from assms False show ?thesis
      by (cases q; cases g) (auto simp: start_up_def m Inr al q g sp ts api(3) url simp del: upt_Suc)
  qed
qed

definition small_settings :: settings where
  "small_settings = \<lparr>st_database = \<lparr>ds_url = ''postgres://db'', ds_max_connections = 5\<rparr>,
     st_rpc = \<lparr>rp_api_key = ''key'', rp_url = ''https://rpc/?api-key='', rp_rps = 8, rp_max_concurrent = 2,
       rp_max_rate_limit_retries = 4\<rparr>,
     st_server = \<lparr>sv_bind = ''0.0.0.0:8080'', sv_cors_allowed_origins = [''http://127.0.0.1:5500'']\<rparr>,
     st_workers = \<lparr>ws_count = 2\<rparr>, st_logging = \<lparr>lg_level = ''info'', lg_dir = ''logs/''\<rparr>\<rparr>"

text \<open>When start-up succeeds the quota was not zero, the client talks to the configured endpoint with
  the configured number of retries, and the tasks are the server and then one worker for each number
  from one to the configured count; with a quota of zero it fails before anything was connected to.\<close>

theorem startup_tasks:
  assumes "start_up max_permits connect run_migrations E c s = Some (r, s')"
  shows "(\<forall>api ts. r = Ok (api, ts) \<longrightarrow> 0 < rp_rps (st_rpc c)
        \<and> ha_rpc_endpoint api = rp_url (st_rpc c) @ rp_api_key (st_rpc c)
        \<and> ha_max_rate_limit_retries api = rp_max_rate_limit_retries (st_rpc c)
        \<and> ts = ServerTask (sv_bind (st_server c)) (sv_cors_allowed_origins (st_server c)) #
               map WorkerTask [1..<Suc (ws_count (st_workers c))])
     \<and> (rp_rps (st_rpc c) = 0 \<longrightarrow> r = Err rps_zero_message \<and> s' = s)"
  by (rule startup_facts [OF assms])

text \<open>When the program that has started ends: with its server, or with the last of its workers. With no
  workers configured it ends at once, and takes the server with it.\<close>

lemma main_returns_iff:
  assumes "start_up max_permits connect run_migrations E c s = Some (Ok (api, ts), s')"
  shows "main_returns ended ts \<longleftrightarrow>
      ended (ServerTask (sv_bind (st_server c)) (sv_cors_allowed_origins (st_server c)))
      \<or> (\<forall>i \<in> {1..ws_count (st_workers c)}. ended (WorkerTask i))"
    and "ws_count (st_workers c) = 0 \<Longrightarrow> main_returns ended ts"
proof -
  have "ts = ServerTask (sv_bind (st_server c)) (sv_cors_allowed_origins (st_server c)) #
      map WorkerTask [1..<Suc (ws_count (st_workers c))]"
    using startup_facts [OF assms] by blast
  then show iff: "main_returns ended ts \<longleftrightarrow>
      ended (ServerTask (sv_bind (st_server c)) (sv_cors_allowed_origins (st_server c)))
      \<or> (\<forall>i \<in> {1..ws_count (st_workers c)}. ended (WorkerTask i))"
    by (auto simp: main_returns_def list_all_iff simp del: upt_Suc)
  show "ws_count (st_workers c) = 0 \<Longrightarrow> main_returns ended ts" by (simp add: iff)
qed

theorem startup_tasks_witness:
  "\<exists>api s'. start_up 100 (\<lambda>w. (Ok (), w)) (\<lambda>s. (Ok (), s)) script_env small_settings small_run =
        Some (Ok (api, [ServerTask ''0.0.0.0:8080'' [''http://127.0.0.1:5500''], WorkerTask 1, WorkerTask 2]), s')
     \<and> ha_rpc_endpoint api = ''https://rpc/?api-key=key''"
proof -
  have rps: "rp_rps (st_rpc small_settings) = 8" "rp_max_concurrent (st_rpc small_settings) = 2"
    by (simp_all add: small_settings_def)
  have "\<exists>x s'. start_up 100 (\<lambda>w. (Ok (), w)) (\<lambda>s. (Ok (), s)) script_env small_settings small_run = Some (Ok x, s')"
    by (simp add: start_up_def helius_new_def rps database_new_def connect_loop_accepted migrate_database_def case_prod_beta)
  then obtain api ts s' where r: "start_up 100 (\<lambda>w. (Ok (), w)) (\<lambda>s. (Ok (), s)) script_env small_settings small_run =
      Some (Ok (api, ts), s')" by fastforce
  have ids: "map WorkerTask [Suc 0..<3] = [WorkerTask (Suc 0), WorkerTask 2]" by (simp add: upt_rec)
  from startup_tasks [OF r]
  have "ts = [ServerTask ''0.0.0.0:8080'' [''http://127.0.0.1:5500''], WorkerTask 1, WorkerTask 2]"
    "ha_rpc_endpoint api = ''https://rpc/?api-key=key''"
    by (simp_all add: small_settings_def ids del: upt_Suc)
  with r show ?thesis by blast
qed

end
