(* ===== verification/Server.thy ===== *)
theory Server
  imports IndexerProps
begin

text \<open>
  The HTTP interface of \<open>src/server.rs\<close>: the handlers as functions from the request to the response,
  and the start of the server. Routing, the parsing of requests and the derived JSON decoding are the
  framework's; \<open>None\<close> is a panic, which ends the request without a response.
\<close>

section \<open>Requests and responses\<close>

record address_request =
  ar_address :: string
  ar_requested_hours :: i16
  ar_tx_limit :: i16

record http_response =
  hr_status :: nat
  hr_body :: json

definition ok_response :: "json \<Rightarrow> http_response" where
  "ok_response body = \<lparr>hr_status = 200, hr_body = body\<rparr>"

text \<open>The JSON of a \<open>JobInfo\<close>; \<open>show_utc\<close> is the text of a timestamp.\<close>

definition job_info_json :: "(micros \<Rightarrow> string) \<Rightarrow> job_info \<Rightarrow> json" where
  "job_info_json show_utc i =
     JObject [(''status'', JString (ji_status i)), (''updated_at'', JString (show_utc (ji_updated_at i))),
       (''total_transactions'', JNumber (show_int (ji_total_transactions i))),
       (''processed_transactions'', JNumber (show_int (ji_processed_transactions i))),
       (''remaining_transactions'', JNumber (show_int (ji_remaining_transactions i)))]"

section \<open>Handlers\<close>

definition health :: http_response where
  "health = ok_response (JObject [(''status'', JString ''ok'')])"

definition address_processing ::
    "'w env \<Rightarrow> bool \<Rightarrow> address_request \<Rightarrow> 'w sys \<Rightarrow> (http_response \<times> 'w sys) option" where
  "address_processing E info payload s = do {
     log_masked info (ar_address payload);
     let (created, s) =
       create_processing_job E (ar_address payload) (ar_tx_limit payload) (ar_requested_hours payload) s;
     case created of
       Ok (Some job_id) \<Rightarrow>
         Some (ok_response (JObject [(''status'', JString ''ok''), (''job_id'', JNumber (show_int job_id))]), s)
     | Ok None \<Rightarrow> do {
         log_masked info (ar_address payload);
         Some (ok_response (JObject [(''status'', JString ''ok''),
                 (''message'', JString ''address already exists'')]), s)
       }
     | Err e \<Rightarrow>
         Some (ok_response (JObject [(''status'', JString ''error''), (''message'', JString e)]), s)
   }"

definition job_info_route ::
    "'w env \<Rightarrow> (micros \<Rightarrow> string) \<Rightarrow> i64 \<Rightarrow> 'w sys \<Rightarrow> http_response \<times> 'w sys" where
  "job_info_route E show_utc job_id s =
     (let (found, s) = get_job_info E job_id s
      in (case found of
            Ok (Some info) \<Rightarrow> ok_response (job_info_json show_utc info)
          | Ok None \<Rightarrow> \<lparr>hr_status = 404, hr_body = JObject [(''error'', JString ''Job not found'')]\<rparr>
          | Err e \<Rightarrow> \<lparr>hr_status = 500, hr_body = JObject [(''error'', JString e)]\<rparr>, s))"

section \<open>Starting the server\<close>

text \<open>The origins are parsed in order, up to the first bad one; then the address is bound and the
  server runs. \<open>cors_layer\<close> panics (\<open>None\<close>) on a list that holds the wildcard.\<close>

fun parse_origins :: "(string \<Rightarrow> 'h result) \<Rightarrow> string list \<Rightarrow> 'h list result" where
  "parse_origins parse [] = Ok []"
| "parse_origins parse (origin # origins) =
     (case parse origin of
        Err e \<Rightarrow> Err e
      | Ok h \<Rightarrow> (case parse_origins parse origins of Err e \<Rightarrow> Err e | Ok hs \<Rightarrow> Ok (h # hs)))"

definition create_server ::
    "(string \<Rightarrow> 'h result) \<Rightarrow> ('h list \<Rightarrow> 'l option) \<Rightarrow> (string \<Rightarrow> 'w \<Rightarrow> unit result \<times> 'w) \<Rightarrow>
       ('l \<Rightarrow> 'w \<Rightarrow> unit result \<times> 'w) \<Rightarrow> string \<Rightarrow> string list \<Rightarrow> 'w \<Rightarrow> (unit result \<times> 'w) option" where
  "create_server parse cors_layer bind_listener serve bind_addr cors_allowed_origins w =
     (case parse_origins parse cors_allowed_origins of
        Err e \<Rightarrow> Some (Err e, w)
      | Ok allowed_origins \<Rightarrow> do {
          cors \<leftarrow> cors_layer allowed_origins;
          case bind_listener bind_addr w of
            (Err e, w) \<Rightarrow> Some (Err e, w)
          | (Ok _, w) \<Rightarrow> (case serve cors w of (Err e, w) \<Rightarrow> Some (Err e, w) | (Ok _, w) \<Rightarrow> Some (Ok (), w))
        })"

section \<open>Properties\<close>

lemma created_or_failed:
  "fst (create_processing_job E a l h s) \<noteq> Ok None"
proof -
  obtain d t w where e: "env_db_turn E (sy_db s) (sy_world s) = (d, t, w)" by (rule prod_cases3)
  show ?thesis
    by (simp add: create_processing_job_def run_db_def e run_stmt_def create_processing_job_stmt_def case_prod_beta
        split: option.split fault.split)
qed

fun analyze_body :: "i64 option result \<Rightarrow> json" where
  "analyze_body (Err e) = JObject [(''status'', JString ''error''), (''message'', JString e)]"
| "analyze_body (Ok (Some job_id)) = JObject [(''status'', JString ''ok''), (''job_id'', JNumber (show_int job_id))]"
| "analyze_body (Ok None) = JObject [(''status'', JString ''ok''), (''message'', JString ''address already exists'')]"

lemma log_masked_Some: "log_masked info a = (if info \<and> mask_addr a = None then None else Some ())"
  by (cases "mask_addr a") (simp_all add: log_masked_def)

lemma address_processing_eq:
  assumes "create_processing_job E (ar_address p) (ar_tx_limit p) (ar_requested_hours p) s = (q, s1)"
  shows "address_processing E info p s =
    (if info \<and> mask_addr (ar_address p) = None then None else Some (ok_response (analyze_body q), s1))"
proof -
  have "q \<noteq> Ok None" using created_or_failed [of E "ar_address p" "ar_tx_limit p" "ar_requested_hours p" s] assms by simp
  then consider e where "q = Err e" | i where "q = Ok (Some i)" by (cases q) auto
  then show ?thesis by cases (simp_all add: address_processing_def assms log_masked_Some)
qed

text \<open>Posting an address answers 200 whatever happens, also when the database fails; the only answers
  are a job number and an error text, so the branch that reports an existing address is never taken.\<close>

theorem analyze_answers:
  assumes "address_processing E info p s = Some (r, s')"
  shows "hr_status r = 200
     \<and> ((\<exists>job_id. hr_body r = JObject [(''status'', JString ''ok''), (''job_id'', JNumber (show_int job_id))])
        \<or> (\<exists>e. hr_body r = JObject [(''status'', JString ''error''), (''message'', JString e)]))"
proof -
  obtain q s1 where q: "create_processing_job E (ar_address p) (ar_tx_limit p) (ar_requested_hours p) s = (q, s1)"
    by fastforce
  have ne: "q \<noteq> Ok None" using created_or_failed [of E "ar_address p" "ar_tx_limit p" "ar_requested_hours p" s] q by simp
  have r: "r = ok_response (analyze_body q)"
    using assms by (simp add: address_processing_eq [OF q] split: if_splits)
  from ne consider e where "q = Err e" | i where "q = Ok (Some i)" by (cases q) auto
  then show ?thesis by cases (auto simp: r ok_response_def)
qed

theorem analyze_answers_witness:
  "\<exists>r s'. address_processing script_env True \<lparr>ar_address = ''owner'', ar_requested_hours = 1, ar_tx_limit = 9\<rparr> small_run
      = Some (r, s') \<and> hr_status r = 200"
proof -
  let ?p = "\<lparr>ar_address = ''owner'', ar_requested_hours = 1, ar_tx_limit = 9\<rparr>"
  obtain q s1 where q: "create_processing_job script_env (ar_address ?p) (ar_tx_limit ?p) (ar_requested_hours ?p) small_run = (q, s1)"
    by fastforce
  obtain r s' where r: "address_processing script_env True ?p small_run = Some (r, s')"
    by (simp add: address_processing_eq [OF q])
  with analyze_answers [OF r] show ?thesis by blast
qed

text \<open>C37: a posted job can be looked up: when no statement fails and nobody else writes, the number in the
  answer names a pending job with the posted address, limit and hours, and \<open>GET /jobs/{id}\<close> answers
  200 with its progress.\<close>

theorem posted_job_is_found:
  assumes "db_alone E" and "no_faults E" and "db_inv (sy_db s)"
    and "info \<longrightarrow> mask_addr (ar_address p) \<noteq> None"
  shows "\<exists>job_id s1 j. address_processing E info p s =
        Some (ok_response (JObject [(''status'', JString ''ok''), (''job_id'', JNumber (show_int job_id))]), s1)
     \<and> j \<in> set (processing_data (sy_db s1)) \<and> jr_id j = job_id \<and> jr_status j = ''pending''
     \<and> jr_address j = ar_address p \<and> jr_tx_limit j = ar_tx_limit p \<and> jr_requested_hours j = ar_requested_hours p
     \<and> fst (job_info_route E show_utc job_id s1) = ok_response (job_info_json show_utc (job_info_of (sy_db s1) j))"
proof -
  obtain d t w where e: "env_db_turn E (sy_db s) (sy_world s) = (d, t, w)" by (rule prod_cases3)
  from assms(1,2) e have t: "d = sy_db s" "t_fault t = None"
    unfolding db_alone_def no_faults_def by (metis fst_conv, metis fst_conv snd_conv)
  let ?d = "snd (create_processing_job_stmt (ar_address p) (ar_tx_limit p) (ar_requested_hours p) t (sy_db s))"
  let ?i = "next_job_id (sy_db s)" and ?s1 = "s\<lparr>sy_db := ?d, sy_world := w\<rparr>"
  let ?j = "\<lparr>jr_id = ?i, jr_address = ar_address p, jr_status = ''pending'', jr_created_at = t_now t,
     jr_updated_at = t_now t, jr_worker_id = None, jr_tx_limit = ar_tx_limit p, jr_requested_hours = ar_requested_hours p\<rparr>"
  have rows: "processing_data ?d = processing_data (sy_db s) @ [?j]" by (simp add: create_processing_job_stmt_def)
  have "create_processing_job E (ar_address p) (ar_tx_limit p) (ar_requested_hours p) s = (Ok (Some ?i), ?s1)"
    by (simp add: create_processing_job_def run_db_def e t create_processing_job_stmt_def)
  then have post: "address_processing E info p s =
      Some (ok_response (JObject [(''status'', JString ''ok''), (''job_id'', JNumber (show_int ?i))]), ?s1)"
    using assms(4) by (auto simp: address_processing_eq)
  obtain d' t' w' where e': "env_db_turn E ?d w = (d', t', w')" by (rule prod_cases3)
  from assms(1,2) e' have t': "d' = ?d" "t_fault t' = None"
    unfolding db_alone_def no_faults_def by (metis fst_conv, metis fst_conv snd_conv)
  have "jr_id k \<noteq> ?i" if "k \<in> set (processing_data (sy_db s))" for k
    using that assms(3) by (auto simp: db_inv_def list_all_iff)
  then have "filter (\<lambda>j. jr_id j = ?i) (processing_data ?d) = [?j]"
    unfolding rows by (simp add: filter_empty_conv)
  then have "fst (job_info_route E show_utc ?i ?s1) = ok_response (job_info_json show_utc (job_info_of ?d ?j))"
    by (simp add: job_info_route_def get_job_info_def run_db_def e' t' get_job_info_stmt_def)
  with post rows show ?thesis by (intro exI [of _ ?i] exI [of _ ?s1] exI [of _ ?j]) simp
qed

theorem posted_job_is_found_witness:
  "\<exists>job_id s1 j. address_processing script_env True
        \<lparr>ar_address = ''owner'', ar_requested_hours = 1, ar_tx_limit = 9\<rparr> small_run =
        Some (ok_response (JObject [(''status'', JString ''ok''), (''job_id'', JNumber (show_int job_id))]), s1)
     \<and> jr_id j = job_id \<and> jr_status j = ''pending'' \<and> jr_tx_limit j = 9
     \<and> fst (job_info_route script_env (\<lambda>_. ''now'') job_id s1) =
         ok_response (job_info_json (\<lambda>_. ''now'') (job_info_of (sy_db s1) j))"
proof -
  let ?p = "\<lparr>ar_address = ''owner'', ar_requested_hours = 1, ar_tx_limit = 9\<rparr>"
  have inv: "db_inv (sy_db small_run)" by (simp add: small_db_inv)
  have "True \<longrightarrow> mask_addr (ar_address ?p) \<noteq> None" by simp
  from posted_job_is_found [OF script_db_alone(1) script_no_faults inv this, of "\<lambda>_. ''now''"]
  show ?thesis by fastforce
qed

end
