(* ===== verification/JobLifecycle.thy ===== *)
theory JobLifecycle
  imports JobsDb
begin

text \<open>
  The contract of the job queue, and that the statements of \<open>JobsDb\<close> implement it: an abstract job has
  an address and a phase, and moves from pending to being indexed, alone on its address, and on to
  ready or failed. What the contract does not promise is recovery: a job whose worker is gone stays
  where it is, and blocks its address.
\<close>

section \<open>The contract\<close>

datatype job_phase = Pending | Indexing | Ready | Failed

type_synonym queue = "i64 \<rightharpoonup> string \<times> job_phase"

inductive queue_step :: "queue \<Rightarrow> queue \<Rightarrow> bool" where
  stutter: "queue_step q q"
| claim: "q i = Some (a, Pending) \<Longrightarrow> \<forall>k. q k \<noteq> Some (a, Indexing) \<Longrightarrow> queue_step q (q(i \<mapsto> (a, Indexing)))"
| settle: "q i = Some (a, Indexing) \<Longrightarrow> p \<in> {Ready, Failed} \<Longrightarrow> queue_step q (q(i \<mapsto> (a, p)))"
| create: "q i = None \<Longrightarrow> queue_step q (q(i \<mapsto> (a, Pending)))"

inductive_cases queue_step_cases: "queue_step q q'"

text \<open>Phases are ordered by progress; ready and failed are both ends.\<close>

instantiation job_phase :: order
begin

fun rank :: "job_phase \<Rightarrow> nat" where
  "rank Pending = 0"
| "rank Indexing = 1"
| "rank Ready = 2"
| "rank Failed = 2"

definition less_eq_job_phase :: "job_phase \<Rightarrow> job_phase \<Rightarrow> bool" where
  "p \<le> p' \<longleftrightarrow> p = p' \<or> rank p < rank p'"

definition less_job_phase :: "job_phase \<Rightarrow> job_phase \<Rightarrow> bool" where
  "p < p' \<longleftrightarrow> rank p < rank p'"

instance
proof
  fix p q r :: job_phase
  show "p < q \<longleftrightarrow> p \<le> q \<and> \<not> q \<le> p" by (auto simp: less_job_phase_def less_eq_job_phase_def)
  show "p \<le> p" by (simp add: less_eq_job_phase_def)
  show "p \<le> q \<Longrightarrow> q \<le> r \<Longrightarrow> p \<le> r" by (auto simp: less_eq_job_phase_def)
  show "p \<le> q \<Longrightarrow> q \<le> p \<Longrightarrow> p = q" by (auto simp: less_eq_job_phase_def)
qed

end

lemma phase_order [simp]:
  "Pending \<le> Indexing" "Indexing \<le> Ready" "Indexing \<le> Failed"
  by (simp_all add: less_eq_job_phase_def)

text \<open>The contract keeps jobs: none disappears, changes its address or goes back.\<close>

lemma queue_step_advances:
  "queue_step q q' \<Longrightarrow> q i = Some (a, p) \<Longrightarrow> \<exists>p'. q' i = Some (a, p') \<and> p \<le> p'"
  by (auto elim!: queue_step_cases)

lemma queue_run_advances:
  "queue_step\<^sup>*\<^sup>* q q' \<Longrightarrow> q i = Some (a, p) \<Longrightarrow> \<exists>p'. q' i = Some (a, p') \<and> p \<le> p'"
proof (induction rule: rtranclp_induct)
  case (step q' q'')
  then obtain p' where "q' i = Some (a, p')" "p \<le> p'" by blast
  with queue_step_advances [OF step(2)] show ?case by (meson order_trans)
qed auto

section \<open>The abstraction\<close>

definition phase_of :: "string \<Rightarrow> job_phase" where
  "phase_of st = (if st = ''pending'' then Pending else if st = ''indexing'' then Indexing
     else if st = ''ready'' then Ready else Failed)"

definition job_view :: "job_row \<Rightarrow> string \<times> job_phase" where
  "job_view j = (jr_address j, phase_of (jr_status j))"

definition queue_of :: "db \<Rightarrow> queue" where
  "queue_of d = map_of (map (\<lambda>j. (jr_id j, job_view j)) (processing_data d))"

text \<open>The statements the program runs: a status is only ever set to ready or error.\<close>

fun program_op :: "jobs_op \<Rightarrow> bool" where
  "program_op (Update i st) \<longleftrightarrow> st = ''ready'' \<or> st = ''error''"
| "program_op op \<longleftrightarrow> True"

lemma phase_of_simps [simp]:
  "phase_of ''pending'' = Pending" "phase_of ''indexing'' = Indexing" "phase_of ''ready'' = Ready"
  "phase_of ''error'' = Failed"
  by (simp_all add: phase_of_def)

lemma phase_of_eq [simp]:
  "phase_of st = Pending \<longleftrightarrow> st = ''pending''" "phase_of st = Indexing \<longleftrightarrow> st = ''indexing''"
  by (simp_all add: phase_of_def)

lemma queue_of_Some:
  assumes "db_inv d"
  shows "queue_of d i = Some v \<longleftrightarrow> (\<exists>j \<in> set (processing_data d). jr_id j = i \<and> job_view j = v)"
proof -
  have "distinct (map fst (map (\<lambda>j. (jr_id j, job_view j)) (processing_data d)))"
    using assms by (simp add: db_inv_def comp_def)
  then show ?thesis by (force simp: queue_of_def)
qed

text \<open>Changing one row of the table changes one job of the queue.\<close>

lemma queue_row_change:
  assumes "db_inv d" and "j \<in> set (processing_data d)" and "\<And>r. jr_id (h r) = jr_id r"
    and "processing_data d' = map (\<lambda>r. if jr_id r = jr_id j then h r else r) (processing_data d)"
  shows "queue_of d' = (queue_of d)(jr_id j \<mapsto> job_view (h j))"
proof -
  have "map_of (map (\<lambda>r. (jr_id r, job_view r)) (map (\<lambda>r. if jr_id r = jr_id j then h r else r) rows)) =
      (map_of (map (\<lambda>r. (jr_id r, job_view r)) rows))(jr_id j \<mapsto> job_view (h j))"
    if "distinct (map jr_id rows)" "j \<in> set rows" for rows
    using that
  proof (induction rows)
    case (Cons r rows)
    show ?case
    proof (cases "r = j")
      case True
      with Cons.prems(1) have "map (\<lambda>r. if jr_id r = jr_id j then h r else r) rows = rows"
        by (intro map_idI) (auto simp: image_iff)
      with True show ?thesis by (simp add: assms(3) fun_eq_iff)
    next
      case False
      with Cons.prems have "j \<in> set rows" "jr_id r \<noteq> jr_id j" by (auto simp: image_iff)
      with Cons show ?thesis by (simp add: fun_eq_iff)
    qed
  qed simp
  with assms(1,2,4) show ?thesis by (simp add: queue_of_def db_inv_def)
qed

section \<open>Every statement is a step of the contract\<close>

lemma claim_refines:
  assumes "db_inv d" and "fair_turn t"
  shows "queue_step (queue_of d) (queue_of (snd (claim_pending_job_stmt w t d)))"
proof -
  consider "snd (claim_pending_job_stmt w t d) = d"
    | j where "next_job t d = Some j"
        "snd (claim_pending_job_stmt w t d) = set_indexing t (jr_id j) (bound_worker_id w) d"
    using claim_state [of w t d] by blast
  then show ?thesis
  proof cases
    case 1
    then show ?thesis by (simp add: queue_step.stutter)
  next
    case (2 j)
    note j = next_job_Some [OF 2(1) assms(2)]
    have "queue_of (set_indexing t (jr_id j) (bound_worker_id w) d) =
        (queue_of d)(jr_id j \<mapsto> (jr_address j, Indexing))"
      by (subst queue_row_change [OF assms(1) j(1), where h = "\<lambda>r. r\<lparr>jr_status := ''indexing'',
            jr_worker_id := Some (bound_worker_id w), jr_updated_at := t_now t\<rparr>"])
         (simp_all add: set_indexing_def job_view_def)
    moreover have "queue_of d (jr_id j) = Some (jr_address j, Pending)"
      using j(1,2) by (subst queue_of_Some [OF assms(1)]) (auto simp: claimable_job_def job_view_def)
    moreover have "\<forall>k. queue_of d k \<noteq> Some (jr_address j, Indexing)"
      using j(2) queue_of_Some [OF assms(1)]
      by (auto simp: claimable_job_def job_active_def job_view_def list_ex_iff)
    ultimately show ?thesis using 2(2) by (simp add: queue_step.claim)
  qed
qed

lemma update_refines:
  assumes "db_inv d" and "st = ''ready'' \<or> st = ''error''"
  shows "queue_step (queue_of d) (queue_of (snd (update_processing_status_stmt i st t d)))"
proof (cases "\<exists>j \<in> set (processing_data d). status_update_applies d i st j")
  case False
  then have "map (\<lambda>j. if status_update_applies d i st j then j\<lparr>jr_status := st, jr_updated_at := t_now t\<rparr> else j)
      (processing_data d) = processing_data d" by (intro map_idI) auto
  then show ?thesis by (simp add: update_processing_status_stmt_def queue_step.stutter)
next
  case True
  then obtain j where j: "j \<in> set (processing_data d)" "status_update_applies d i st j" by blast
  have "status_update_applies d i st r \<longleftrightarrow> jr_id r = jr_id j" if "r \<in> set (processing_data d)" for r
    using that j assms(1) by (auto simp: status_update_applies_def db_inv_def distinct_map dest: inj_onD)
  then have "processing_data (snd (update_processing_status_stmt i st t d)) =
      map (\<lambda>r. if jr_id r = jr_id j then r\<lparr>jr_status := st, jr_updated_at := t_now t\<rparr> else r) (processing_data d)"
    by (simp add: update_processing_status_stmt_def)
  then have "queue_of (snd (update_processing_status_stmt i st t d)) =
      (queue_of d)(jr_id j \<mapsto> (jr_address j, phase_of st))"
    by (subst queue_row_change [OF assms(1) j(1), where h = "\<lambda>r. r\<lparr>jr_status := st, jr_updated_at := t_now t\<rparr>"])
       (simp_all add: job_view_def)
  moreover have "queue_of d (jr_id j) = Some (jr_address j, Indexing)"
    using j by (subst queue_of_Some [OF assms(1)]) (auto simp: status_update_applies_def job_view_def)
  ultimately show ?thesis using assms(2) by (auto intro: queue_step.settle)
qed

lemma create_refines:
  assumes "db_inv d"
  shows "queue_step (queue_of d) (queue_of (snd (create_processing_job_stmt a l h t d)))"
proof -
  have new: "next_job_id d \<notin> jr_id ` set (processing_data d)"
    using assms by (auto simp: db_inv_def list_all_iff)
  then have none: "queue_of d (next_job_id d) = None"
    by (force simp: queue_of_def map_of_eq_None_iff)
  have "queue_of (snd (create_processing_job_stmt a l h t d)) = [next_job_id d \<mapsto> (a, Pending)] ++ queue_of d"
    by (simp add: queue_of_def create_processing_job_stmt_def job_view_def)
  also have "\<dots> = (queue_of d)(next_job_id d \<mapsto> (a, Pending))"
    using none by (auto simp: map_add_def fun_eq_iff split: option.split)
  finally have "queue_of (snd (create_processing_job_stmt a l h t d)) = (queue_of d)(next_job_id d \<mapsto> (a, Pending))" .
  with none show ?thesis by (simp add: queue_step.create)
qed

lemma jobs_step_refines:
  assumes "db_inv d" and "fair_turn (snd s)" and "program_op (fst s)"
  shows "queue_step (queue_of d) (queue_of (jobs_step s d))"
  using jobs_step_cases [of "fst s" "snd s" d] assms
  by (auto simp: claim_refines update_refines create_refines queue_step.stutter)

lemma jobs_run_refines:
  assumes "db_inv d" and "list_all (\<lambda>s. fair_turn (snd s) \<and> program_op (fst s)) ss"
  shows "queue_step\<^sup>*\<^sup>* (queue_of d) (queue_of (jobs_run ss d))"
  using assms
proof (induction ss arbitrary: d)
  case (Cons s ss)
  then have "queue_step (queue_of d) (queue_of (jobs_step s d))" by (simp add: jobs_step_refines)
  moreover have "queue_step\<^sup>*\<^sup>* (queue_of (jobs_step s d)) (queue_of (jobs_run ss (jobs_step s d)))"
    using Cons by (simp add: jobs_step_inv)
  ultimately show ?case by (simp add: converse_rtranclp_into_rtranclp)
qed simp

section \<open>Properties\<close>

text \<open>C17: the job statements implement the queue: each of a run of them, whatever its fault and its
  session's view, is a step of the contract on the abstract jobs; so no job disappears, changes its
  address or goes back in its life.\<close>

theorem jobs_refine_queue:
  assumes "db_inv d" and "list_all (\<lambda>s. fair_turn (snd s) \<and> program_op (fst s)) ss"
  shows "queue_step\<^sup>*\<^sup>* (queue_of d) (queue_of (jobs_run ss d))
     \<and> (\<forall>i a p. queue_of d i = Some (a, p) \<longrightarrow> (\<exists>p'. queue_of (jobs_run ss d) i = Some (a, p') \<and> p \<le> p'))"
  using jobs_run_refines [OF assms] queue_run_advances [OF jobs_run_refines [OF assms]] by blast

theorem jobs_refine_queue_witness:
  "\<exists>p. queue_of (jobs_run [(Claim 7, plain_turn 6), (Update 1 ''error'', plain_turn 7)] (small_db ''pending'' False)) 1 =
     Some (''owner'', p) \<and> Pending \<le> p"
proof -
  let ?d = "small_db ''pending'' False"
  let ?ss = "[(Claim 7, plain_turn 6), (Update 1 ''error'', plain_turn 7)]"
  have "queue_of ?d 1 = Some (''owner'', Pending)"
    by (simp add: queue_of_def small_db_def small_job_def job_view_def)
  moreover have "list_all (\<lambda>s. fair_turn (snd s) \<and> program_op (fst s)) ?ss" by simp
  ultimately show ?thesis using jobs_refine_queue [OF small_db_inv] by blast
qed

text \<open>A job whose worker is gone: its status is never set again.\<close>

fun settles :: "i64 \<Rightarrow> jobs_op \<Rightarrow> bool" where
  "settles i (Update k st) \<longleftrightarrow> k = i"
| "settles i op \<longleftrightarrow> False"

lemma jobs_step_keeps_orphan:
  assumes "db_inv d" and "fair_turn (snd s)" and "\<not> settles (jr_id j) (fst s)"
    and "j \<in> set (processing_data d)" and "jr_status j = ''indexing''"
  shows "j \<in> set (processing_data (jobs_step s d))"
proof -
  obtain op t where s: "s = (op, t)" by (cases s)
  consider "jobs_step (op, t) d = d"
    | w where "jobs_step (op, t) d = snd (claim_pending_job_stmt w t d)"
    | i st where "op = Update i st" "jobs_step (op, t) d = snd (update_processing_status_stmt i st t d)"
    | a l h where "jobs_step (op, t) d = snd (create_processing_job_stmt a l h t d)"
    using jobs_step_cases [of op t d] by blast
  then show ?thesis
  proof cases
    case 1
    with assms(4) s show ?thesis by simp
  next
    case (2 w)
    have "jr_id j \<noteq> jr_id k" if "next_job t d = Some k" for k
      using next_job_Some(1,2) [OF that] assms(1,2,4,5) s
      by (auto simp: claimable_job_def db_inv_def distinct_map dest: inj_onD)
    then have "j \<in> set (processing_data (snd (claim_pending_job_stmt w t d)))"
      using claim_state [of w t d] assms(4) by (auto simp: set_indexing_def)
    with 2 s show ?thesis by simp
  next
    case (3 i st)
    with assms(3,4) s show ?thesis
      by (force simp: update_processing_status_stmt_def status_update_applies_def)
  next
    case (4 a l h)
    with assms(4) s show ?thesis by (simp add: create_processing_job_stmt_def)
  qed
qed

lemma jobs_run_keeps_orphan:
  assumes "db_inv d" and "list_all (\<lambda>s. fair_turn (snd s) \<and> \<not> settles (jr_id j) (fst s)) ss"
    and "j \<in> set (processing_data d)" and "jr_status j = ''indexing''"
  shows "j \<in> set (processing_data (jobs_run ss d))"
  using assms by (induction ss arbitrary: d) (simp_all add: jobs_step_inv jobs_step_keeps_orphan)

text \<open>C19: a job left being indexed by a worker that died (a panic, a lost connection at the status
  update, a restart) stays so for ever and starves its address: as long as nobody sets its status, no
  sequence of statements changes it, and no claim returns any job of that address.\<close>

theorem orphaned_job_blocks_address:
  assumes "db_inv d" and "j \<in> set (processing_data d)" and "jr_status j = ''indexing''"
    and "list_all (\<lambda>s. fair_turn (snd s) \<and> \<not> settles (jr_id j) (fst s)) ss" and "fair_turn t"
    and "claim_pending_job_stmt w t (jobs_run ss d) = (Ok (Some c), d')"
  shows "j \<in> set (processing_data (jobs_run ss d)) \<and> cj_address c \<noteq> jr_address j"
proof -
  have j: "j \<in> set (processing_data (jobs_run ss d))" by (rule jobs_run_keeps_orphan [OF assms(1,4,2,3)])
  obtain k where k: "next_job t (jobs_run ss d) = Some k" "cj_address c = jr_address k"
    using assms(6) by (rule claim_Some)
  have "claimable_job (jobs_run ss d) k" by (rule next_job_Some(2) [OF k(1) assms(5)])
  with j assms(3) have "jr_address k \<noteq> jr_address j"
    by (auto simp: claimable_job_def job_active_def list_ex_iff)
  with j k(2) show ?thesis by simp
qed

text \<open>The other address of the witness is served; the orphan's second job is not.\<close>

definition orphan_db :: db where
  "orphan_db = (small_db ''indexing'' False)\<lparr>next_job_id := 4,
     processing_data := [small_job 1 ''indexing'', small_job 2 ''pending'',
       (small_job 3 ''pending'')\<lparr>jr_address := ''other''\<rparr>]\<rparr>"

theorem orphaned_job_blocks_address_witness:
  "\<exists>c d'. claim_pending_job_stmt 7 (plain_turn 6) (jobs_run [(Create ''owner'' 9 1, plain_turn 5)] orphan_db) = (Ok (Some c), d')
     \<and> cj_address c = ''other'' \<and> cj_address c \<noteq> ''owner''"
proof -
  have inv: "db_inv orphan_db" "small_job 1 ''indexing'' \<in> set (processing_data orphan_db)"
    by (simp_all add: orphan_db_def db_inv_def small_db_def small_job_def)
  let ?ss = "[(Create ''owner'' 9 1, plain_turn 5)]"
  have "\<exists>c d'. claim_pending_job_stmt 7 (plain_turn 6) (jobs_run ?ss orphan_db) = (Ok (Some c), d')
     \<and> cj_address c = ''other''"
    by (simp add: orphan_db_def small_db_def small_job_def create_processing_job_stmt_def claim_pending_job_stmt_def
        next_job_def claimable_job_def job_active_def bound_worker_id_def i32_try_from_def in_signed_def)
  then obtain c d' where c: "claim_pending_job_stmt 7 (plain_turn 6) (jobs_run ?ss orphan_db) = (Ok (Some c), d')"
    "cj_address c = ''other''" by blast
  have "cj_address c \<noteq> ''owner''"
    using orphaned_job_blocks_address [OF inv _ _ _ c(1)] by (simp add: small_job_def)
  with c show ?thesis by blast
qed

end
