(* ===== verification/System.thy ===== *)
theory System
  imports Workers Server JobLifecycle
begin

text \<open>
  The program as a whole: any number of workers and requests that share the database. What each of
  them may do to the tables is a step relation. Whatever runs only such steps can rely on the others
  doing the same, and what the steps keep then holds in every state the program reaches.
\<close>

section \<open>The steps of the program\<close>

text \<open>A claim may take any pending job: overlapping claims are not exclusive on an address (\<open>ClaimRace\<close>).
  Signatures are marked only when the transactions a fetch of them yields are stored.\<close>

inductive program_step :: "'w env \<Rightarrow> helius_api \<Rightarrow> db \<Rightarrow> db \<Rightarrow> bool" for E :: "'w env" and api :: helius_api where
  claim: "j \<in> set (processing_data d) \<Longrightarrow> jr_status j = ''pending'' \<Longrightarrow>
    program_step E api d (set_indexing t (jr_id j) v d)"
| settle: "st \<in> {''ready'', ''error''} \<Longrightarrow>
    program_step E api d (snd (update_processing_status_stmt i st t d))"
| create: "program_step E api d (snd (create_processing_job_stmt a l h t d))"
| page: "program_step E api d (snd (write_signatures_stmt p a t d))"
| lease: "program_step E api d (snd (get_unprocessed_signatures_stmt a n t d))"
| save_txs: "program_step E api d (snd (write_transaction_info_stmt txs a t d))"
| save_transfers: "program_step E api d (snd (write_token_transfers_stmt (env_from_f64 E) ps a t d))"
| mark: "\<forall>x \<in> set xs. \<exists>tx. fetched E api x tx \<and> tx_stored E d a tx \<Longrightarrow>
    program_step E api d (snd (mark_signatures_processed_stmt a xs t d))"

inductive_cases program_step_cases: "program_step E api d d'"

abbreviation program_run :: "'w env \<Rightarrow> helius_api \<Rightarrow> db \<Rightarrow> db \<Rightarrow> bool" where
  "program_run E api \<equiv> (program_step E api)\<^sup>*\<^sup>*"

lemma run_then_step: "program_run E api d d1 \<Longrightarrow> program_step E api d1 d2 \<Longrightarrow> program_run E api d d2"
  by (rule rtranclp.rtrancl_into_rtrancl)

text \<open>The other tasks run the same program.\<close>

definition others_run :: "'w env \<Rightarrow> helius_api \<Rightarrow> bool" where
  "others_run E api \<longleftrightarrow>
     (\<forall>d w. program_run E api d (fst (env_db_turn E d w)) \<and> fair_turn (fst (snd (env_db_turn E d w))))"

section \<open>Relying on the others\<close>

lemma step_grows: "program_step E api d d' \<Longrightarrow> db_grows d d'"
  by (induction rule: program_step.induct) (simp_all add: stmt_grows grows_jobs frame_simps)

lemma run_grows: "program_run E api d d' \<Longrightarrow> db_grows d d'"
  by (induction rule: rtranclp_induct) (auto intro: db_grows_trans step_grows)

lemma others_run_grow: "others_run E api \<Longrightarrow> others_grow E"
  unfolding others_run_def others_grow_def using run_grows by blast

context disciplined begin

lemma step_keeps: "program_step E api d d' \<Longrightarrow> P d \<Longrightarrow> P d'"
  by (erule program_step_cases) (auto intro: page lease save_txs save_transfers settle claim create mark)

lemma run_keeps: "program_run E api d d' \<Longrightarrow> P d \<Longrightarrow> P d'"
  by (induction rule: rtranclp_induct) (auto intro: step_keeps)

lemma others_keep_run: "others_run E api \<Longrightarrow> others_keep E P"
  unfolding others_run_def others_keep_def using run_keeps by blast

end

interpretation grown: disciplined E api "db_grows d0" for E api d0
proof unfold_locales
  show "db_grows d0 (set_indexing t i v d)" if "db_grows d0 d" for t i v d
    by (rule db_grows_trans [OF that grows_jobs]) (simp_all add: frame_simps)
qed (erule db_grows_trans, rule stmt_grows)+

interpretation consistent: disciplined E api db_inv for E api
proof unfold_locales
  show "db_inv (set_indexing t i v d)" if "db_inv d" for t i v d
    by (rule db_inv_jobs [OF that]) (simp_all add: set_indexing_def job_const_def)
qed (simp_all add: stmt_inv)

lemma sigs_marked_mark: "sigs_marked d \<Longrightarrow> sigs_marked (snd (mark_signatures_processed_stmt a xs t d))"
  by (auto simp: sigs_marked_def mark_rows list_all_iff)

interpretation marked: disciplined E api sigs_marked for E api
  by unfold_locales
    (auto simp: sigs_marked_write sigs_marked_mark,
     auto simp: sigs_marked_def sigs_claim_rows frame_simps list_all_iff)

text \<open>Taking steps is itself disciplined: this is the guarantee.\<close>

interpretation program: disciplined E api "program_run E api d0" for E api d0
  by unfold_locales (erule run_then_step, blast intro: program_step.intros)+

section \<open>What the tasks keep\<close>

context disciplined begin

lemma claiming:
  assumes "others_run E api" and "P (sy_db s)"
  shows "P (sy_db (snd (claim_pending_job E w s)))"
proof -
  obtain d t x where e: "env_db_turn E (sy_db s) (sy_world s) = (d, t, x)" by (rule prod_cases3)
  then have d: "P d" "fair_turn t"
    using others_keep_run [OF assms(1)] assms unfolding others_keep_def others_run_def
    by (metis fst_conv, metis fst_conv snd_conv)
  have "P (snd (claim_pending_job_stmt w t d))"
    using claim_state [of w t d] next_job_Some(1,2) [OF _ d(2)] d(1) claim by (auto simp: claimable_job_def)
  with d have "P (snd (run_stmt t (claim_pending_job_stmt w) d))"
    using run_stmt_state [of t "claim_pending_job_stmt w" d] by auto
  then show ?thesis by (simp add: claim_pending_job_def run_db_def e case_prod_beta)
qed

lemma waiting_for_a_job:
  assumes "others_run E api" and "claim_loop E w b s = Some (job, b', s')" and "P (sy_db s)"
  shows "P (sy_db s')"
proof -
  have "E' = E \<longrightarrow> P (sy_db s) \<longrightarrow> P (sy_db (snd (snd x)))" if "claim_loop E' w b s = Some x" for E' w b s x
  proof (rule claim_loop.raw_induct [where
      P = "\<lambda>E' w b s x. E' = E \<longrightarrow> P (sy_db s) \<longrightarrow> P (sy_db (snd (snd x)))", OF _ that], intro impI, goal_cases)
    case (1 loop E' w b s x)
    obtain c s1 where c: "claim_pending_job E w s = (c, s1)" by fastforce
    have s1: "P (sy_db s1)" using claiming [OF assms(1), of s w] 1(4) c by simp
    obtain b1 s2 where i: "idle_wait E b s1 = (b1, s2)" by fastforce
    have s2: "sy_db s2 = sy_db s1" using i by (auto simp: idle_wait_def case_prod_beta Let_def)
    show ?case
      using 1(1) [of E w b1 s2 x] 1(2,3) c i s1 s2 by (auto split: sum.splits option.splits)
  qed
  from this [OF assms(2)] assms(3) show ?thesis by simp
qed

lemma working:
  assumes "others_run E api" and "worker_rounds n E api w bs = Some bs'" and "P (sy_db (snd bs))"
  shows "P (sy_db (snd bs'))"
  using assms(2,3)
proof (induction n arbitrary: bs)
  case (Suc n)
  then obtain job b s1 s2 where r: "claim_loop E w (fst bs) (snd bs) = Some (job, b, s1)"
    "process_claimed_job E api w job s1 = Some s2" "worker_rounds n E api w (b, s2) = Some bs'"
    by (auto simp: worker_round_def bind_eq_Some_conv)
  have "P (sy_db s1)" by (rule waiting_for_a_job [OF assms(1) r(1) Suc.prems(2)])
  then have "P (sy_db s2)"
    by (rule claimed_job [OF others_run_grow [OF assms(1)] others_keep_run [OF assms(1)] _ r(2)])
  with Suc.IH [OF r(3)] show ?case by simp
qed simp

lemma once:
  assumes "others_run E api" and "process_pending_job_once E api w s = Some (r, s')" and "P (sy_db s)"
  shows "P (sy_db s')"
proof -
  note keep = others_keep_run [OF assms(1)]
  obtain c s1 where c: "claim_pending_job E w s = (c, s1)" by fastforce
  have s1: "P (sy_db s1)" using claiming [OF assms(1,3), of w] c by simp
  show ?thesis
  proof (cases "\<exists>job. c = Ok (Some job)")
    case False
    with assms(2) c s1 show ?thesis
      by (auto simp: process_pending_job_once_def split: sum.splits option.splits)
  next
    case True
    then obtain job s2 where r: "process_claimed_job E api w job s1 = Some s2"
      "get_job_info E (cj_job_id job) s2 = (r, s')"
      using assms(2) c by (auto simp: process_pending_job_once_def bind_eq_Some_conv)
    have "P (sy_db s2)" by (rule claimed_job [OF others_run_grow [OF assms(1)] keep s1 r(1)])
    with facade_keeps(3) [where P = P, OF keep, of s2] r(2) show ?thesis by (metis snd_conv)
  qed
qed

lemma serving:
  assumes "others_run E api" and "P (sy_db s)"
  shows "address_processing E info p s = Some (r, s') \<Longrightarrow> P (sy_db s')"
    and "P (sy_db (snd (job_info_route E show_utc i s)))"
proof -
  note keep = others_keep_run [OF assms(1)]
  obtain q s1 where q: "create_processing_job E (ar_address p) (ar_tx_limit p) (ar_requested_hours p) s = (q, s1)"
    by fastforce
  have "P (sy_db (snd (create_processing_job E (ar_address p) (ar_tx_limit p) (ar_requested_hours p) s)))"
    by (rule facade_keeps(4) [where P = P, OF keep assms(2) create])
  then show "address_processing E info p s = Some (r, s') \<Longrightarrow> P (sy_db s')"
    by (auto simp: address_processing_eq [OF q] q split: if_splits)
  show "P (sy_db (snd (job_info_route E show_utc i s)))"
    using facade_keeps(3) [where P = P, OF keep assms(2), of i]
    by (simp add: job_info_route_def case_prod_beta Let_def)
qed

end

section \<open>Jobs\<close>

text \<open>Only three of the steps touch the job table.\<close>

lemma step_on_jobs:
  assumes "program_step E api d d'"
  obtains (claim) j t v where "j \<in> set (processing_data d)" "jr_status j = ''pending''"
      "d' = set_indexing t (jr_id j) v d"
    | (settle) st i t where "st \<in> {''ready'', ''error''}" "d' = snd (update_processing_status_stmt i st t d)"
    | (create) a l h t where "d' = snd (create_processing_job_stmt a l h t d)"
    | (same) "processing_data d' = processing_data d"
  using assms
proof cases
  case (claim j t v)
  show thesis by (rule that(1) [OF claim(2,3,1)])
next
  case (settle st i t)
  show thesis by (rule that(2) [OF settle(2,1)])
next
  case (create a l h t)
  show thesis by (rule that(3) [OF create])
qed (rule that(4), simp add: frame_simps)+

text \<open>The jobs of the queue only advance.\<close>

definition queue_advances :: "db \<Rightarrow> db \<Rightarrow> bool" where
  "queue_advances d d' \<longleftrightarrow>
     (\<forall>i a p. queue_of d i = Some (a, p) \<longrightarrow> (\<exists>p'. queue_of d' i = Some (a, p') \<and> p \<le> p'))"

lemma advances_trans: "queue_advances d d' \<Longrightarrow> queue_advances d' d'' \<Longrightarrow> queue_advances d d''"
  unfolding queue_advances_def by (meson order_trans)

lemma advances_same: "processing_data d' = processing_data d \<Longrightarrow> queue_advances d d'"
  by (simp add: queue_advances_def queue_of_def)

lemma advances_queue_step: "queue_step (queue_of d) (queue_of d') \<Longrightarrow> queue_advances d d'"
  unfolding queue_advances_def using queue_step_advances by blast

lemma step_advances:
  assumes "program_step E api d d'" and "db_inv d"
  shows "queue_advances d d'"
  using assms(1)
proof (cases rule: step_on_jobs)
  case (claim j t v)
  have "queue_of d' = (queue_of d)(jr_id j \<mapsto> (jr_address j, Indexing))"
    by (subst queue_row_change [OF assms(2) claim(1), where h = "\<lambda>r. r\<lparr>jr_status := ''indexing'',
          jr_worker_id := Some v, jr_updated_at := t_now t\<rparr>"])
       (simp_all add: claim(3) set_indexing_def job_view_def)
  moreover have "queue_of d (jr_id j) = Some (jr_address j, Pending)"
    using claim(1,2) by (subst queue_of_Some [OF assms(2)]) (auto simp: job_view_def)
  ultimately show ?thesis by (auto simp: queue_advances_def)
next
  case (settle st i t)
  then show ?thesis using update_refines [OF assms(2)] by (intro advances_queue_step) auto
next
  case (create a l h t)
  then show ?thesis using create_refines [OF assms(2)] by (intro advances_queue_step) auto
qed (rule advances_same)

lemma run_advances:
  assumes "program_run E api d d'" and "db_inv d"
  shows "queue_advances d d'"
  using assms(1)
proof (induction rule: rtranclp_induct)
  case base
  show ?case by (rule advances_same) simp
next
  case (step d1 d2)
  then show ?case using consistent.run_keeps [OF step(1) assms(2)] advances_trans step_advances by blast
qed

section \<open>The moment a job becomes ready\<close>

definition job_ready :: "db \<Rightarrow> i64 \<Rightarrow> bool" where
  "job_ready d i = list_ex (\<lambda>j. jr_id j = i \<and> jr_status j = ''ready'') (processing_data d)"

lemma ready_same: "processing_data d' = processing_data d \<Longrightarrow> job_ready d' i = job_ready d i"
  by (simp add: job_ready_def)

lemma step_becomes_ready:
  assumes "program_step E api d d'" and "\<not> job_ready d i" and "job_ready d' i"
  obtains k where "k \<in> set (processing_data d')" and "jr_id k = i" and "jr_status k = ''ready''"
    and "\<not> window_unprocessed d' k"
  using assms(1)
proof (cases rule: step_on_jobs)
  case (claim j t v)
  with assms(2,3) show thesis by (auto simp: job_ready_def list_ex_iff set_indexing_def)
next
  case (create a l h t)
  with assms(2,3) show thesis by (auto simp: job_ready_def create_processing_job_stmt_def)
next
  case (settle st i' t)
  let ?u = "\<lambda>j. if status_update_applies d i' st j then j\<lparr>jr_status := st, jr_updated_at := t_now t\<rparr> else j"
  from assms(3) obtain j where j: "j \<in> set (processing_data d)" "jr_id (?u j) = i" "jr_status (?u j) = ''ready''"
    by (auto simp: settle(2) job_ready_def list_ex_iff update_processing_status_stmt_def)
  with assms(2) have u: "status_update_applies d i' st j"
    by (cases "status_update_applies d i' st j") (auto simp: job_ready_def list_ex_iff)
  show thesis
  proof (rule that)
    show "?u j \<in> set (processing_data d')" using j(1) by (simp add: settle(2) update_processing_status_stmt_def)
    have "window_unprocessed d' (?u j) = window_unprocessed d j"
      by (rule window_unprocessed_const) (simp_all add: settle(2) frame_simps job_const_def)
    then show "\<not> window_unprocessed d' (?u j)" using u j(3) by (simp add: status_update_applies_def)
  qed (rule j)+
next
  case same
  with assms(2,3) show thesis by (simp add: ready_same [OF same])
qed

lemma run_becomes_ready:
  assumes "program_run E api d d'" and "\<not> job_ready d i" and "job_ready d' i"
  shows "\<exists>d1. program_run E api d d1 \<and> program_run E api d1 d'
     \<and> (\<exists>k \<in> set (processing_data d1). jr_id k = i \<and> jr_status k = ''ready'' \<and> \<not> window_unprocessed d1 k)"
  using assms
proof (induction rule: rtranclp_induct)
  case (step d1 d2)
  show ?case
  proof (cases "job_ready d1 i")
    case True
    with step.IH step.prems(1) obtain d0 where "program_run E api d d0" "program_run E api d0 d1"
      "\<exists>k \<in> set (processing_data d0). jr_id k = i \<and> jr_status k = ''ready'' \<and> \<not> window_unprocessed d0 k" by blast
    then show ?thesis by (intro exI [of _ d0] conjI run_then_step [OF _ step.hyps(2)])
  next
    case False
    obtain k where "k \<in> set (processing_data d2)" "jr_id k = i" "jr_status k = ''ready''" "\<not> window_unprocessed d2 k"
      by (rule step_becomes_ready [OF step.hyps(2) False step.prems(2)])
    then show ?thesis
      by (intro exI [of _ d2] conjI run_then_step [OF step.hyps(1,2)] bexI [of _ k]) simp_all
  qed
qed simp

text \<open>What the program keeps of the tables.\<close>

definition sound_tables :: "'w env \<Rightarrow> helius_api \<Rightarrow> db \<Rightarrow> bool" where
  "sound_tables E api d \<longleftrightarrow> db_inv d \<and> sigs_marked d \<and> all_stored E api d"

definition empty_db :: db where
  "empty_db = \<lparr>processing_data = [], next_job_id = 1, signatures = [], transactions = [], token_transfers = []\<rparr>"

lemma sound_empty: "sound_tables E api empty_db"
  by (simp add: sound_tables_def empty_db_def db_inv_def sigs_marked_def all_stored_def sig_processed_def)

interpretation sound: disciplined E api "sound_tables E api" for E api
  unfolding sound_tables_def
  by unfold_locales
    (simp_all add: consistent.page consistent.lease consistent.save_txs consistent.save_transfers
      mark_inv consistent.settle consistent.claim consistent.create marked.page marked.lease marked.save_txs
      marked.save_transfers sigs_marked_mark marked.settle marked.claim marked.create stored.page stored.lease
      stored.save_txs stored.save_transfers stored.mark stored.settle stored.claim stored.create)

section \<open>Properties\<close>

text \<open>C4: what the program relies on is what it guarantees: as long as the other tasks take only steps
  of the program between any two statements, so does every worker, over any number of rounds, the
  indexing of one pending job, and both handlers of the server, whatever the service answers and
  whichever statements fail.\<close>

theorem program_guarantee:
  assumes "others_run E api"
  shows "(\<forall>n w b' s'. worker_loop n E api w s = Some (b', s') \<longrightarrow> program_run E api (sy_db s) (sy_db s'))
     \<and> (\<forall>w r s'. process_pending_job_once E api w s = Some (r, s') \<longrightarrow> program_run E api (sy_db s) (sy_db s'))
     \<and> (\<forall>info p r s'. address_processing E info p s = Some (r, s') \<longrightarrow> program_run E api (sy_db s) (sy_db s'))
     \<and> (\<forall>show_utc i. program_run E api (sy_db s) (sy_db (snd (job_info_route E show_utc i s))))"
proof -
  note start = rtranclp.rtrancl_refl [of "program_step E api" "sy_db s"]
  show ?thesis
    using program.working [OF assms, where bs = "(new_backoff (Finite 200) (Finite 2000) (Finite 2), s)" and ?d0.0 = "sy_db s"]
      program.once [OF assms, where ?d0.0 = "sy_db s" and s = s] program.serving [OF assms, where ?d0.0 = "sy_db s" and s = s]
    by (fastforce simp: worker_loop_def)
qed

lemma script_others_run [simp]: "others_run script_env api"
  using script_db_alone(1) by (simp add: others_run_def db_alone_def del: script_db_alone)

theorem program_guarantee_witness:
  "\<exists>r s'. address_processing script_env True \<lparr>ar_address = ''owner'', ar_requested_hours = 1, ar_tx_limit = 9\<rparr> small_run
      = Some (r, s') \<and> program_run script_env script_api (small_db ''indexing'' False) (sy_db s')"
proof -
  let ?p = "\<lparr>ar_address = ''owner'', ar_requested_hours = 1, ar_tx_limit = 9\<rparr>"
  obtain q s1 where q: "create_processing_job script_env (ar_address ?p) (ar_tx_limit ?p) (ar_requested_hours ?p) small_run = (q, s1)"
    by fastforce
  have "address_processing script_env True ?p small_run = Some (ok_response (analyze_body q), s1)"
    by (simp add: address_processing_eq [OF q])
  with program_guarantee [OF script_others_run, of script_api small_run] show ?thesis by fastforce
qed

text \<open>C5: the program keeps its tables sound: starting from sound tables, such as the empty ones, after
  any number of rounds of a worker among any number of other tasks of the program the keys are unique,
  every signature is marked one way or the other, every processed signature has its transaction and
  events stored, nothing was lost, and every job has kept its address and only advanced.\<close>

theorem program_keeps_sound:
  assumes "others_run E api" and "sound_tables E api (sy_db s)" and "worker_loop n E api w s = Some (b', s')"
  shows "sound_tables E api empty_db \<and> sound_tables E api (sy_db s') \<and> db_grows (sy_db s) (sy_db s')
     \<and> queue_advances (sy_db s) (sy_db s')"
proof -
  have "program_run E api (sy_db s) (sy_db s')"
    using program.working [OF assms(1) assms(3) [unfolded worker_loop_def], of "sy_db s"] by simp
  then show ?thesis
    using sound_empty [of E api] sound.run_keeps run_grows run_advances assms(2) unfolding sound_tables_def by blast
qed

lemma two_pending_sound: "sound_tables E api two_pending"
  unfolding sound_tables_def
  by (simp add: two_pending_inv) (simp add: two_pending_def sigs_marked_def all_stored_def sig_processed_def)

theorem program_keeps_sound_witness:
  "\<exists>b' s'. worker_loop 1 script_env script_api 1 (script_start two_pending [(200, ''one''), (200, ''tx'')]) = Some (b', s')
     \<and> sound_tables script_env script_api (sy_db s') \<and> queue_advances two_pending (sy_db s')"
proof -
  let ?s = "script_start two_pending [(200, ''one''), (200, ''tx'')]"
  have db: "sy_db ?s = two_pending" by (simp add: script_start_def)
  have s: "db_inv (sy_db ?s)" "no_indexing (sy_db ?s)" "0 < pending_jobs (sy_db ?s)"
    "\<And>j. j \<in> set (processing_data (sy_db ?s)) \<Longrightarrow> mask_addr (jr_address j) \<noteq> None"
    "loggable_db script_env (sy_db ?s)"
    by (simp_all add: db two_pending_inv) (auto simp: two_pending_def small_job_def no_indexing_def pending_jobs_def loggable_db_def)
  have w: "in_signed 16 (bound_worker_id 1)" by (rule small_worker) simp
  obtain b' s' where r: "worker_round script_env script_api 1 (new_backoff (Finite 200) (Finite 2000) (Finite 2), ?s) = Some (b', s')"
    by (rule round_settles [OF script_unhindered script_db_alone(1) script_no_faults script_no_locks script_timed w s(1-4)
        script_maskable s(5)])
  then have loop: "worker_loop 1 script_env script_api 1 ?s = Some (b', s')" by (simp add: worker_loop_def)
  from program_keeps_sound [OF script_others_run _ loop] loop show ?thesis by (simp add: db two_pending_sound)
qed

text \<open>C3: ready means complete among other tasks: when a job comes out of its indexing as \<open>ready\<close>, there
  was a moment at which it was \<open>ready\<close> and every signature the tables then held for its window has its
  transaction, as a fetch of it yields it, and all its events in the tables from then on, whatever the
  other tasks did in between and whichever statements failed.\<close>

theorem ready_complete_among_others:
  assumes "others_run E api" and "sound_tables E api (sy_db s)"
    and "process_claimed_job E api w job s = Some s'"
    and "\<not> job_ready (sy_db s) (cj_job_id job)" and "job_ready (sy_db s') (cj_job_id job)"
  shows "\<exists>d k. program_run E api (sy_db s) d \<and> program_run E api d (sy_db s')
     \<and> k \<in> set (processing_data d) \<and> jr_id k = cj_job_id job \<and> jr_status k = ''ready''
     \<and> (\<forall>x \<in> set (signatures d). in_job_window k x \<longrightarrow>
          (\<exists>tx. fetched E api (sr_signature x) tx \<and> tx_stored E (sy_db s') (jr_address k) tx))"
proof -
  have run: "program_run E api (sy_db s) (sy_db s')"
    by (rule program.claimed_job [OF others_run_grow program.others_keep_run rtranclp.rtrancl_refl assms(3)])
      (rule assms(1))+
  obtain d k where d: "program_run E api (sy_db s) d" "program_run E api d (sy_db s')"
    and k: "k \<in> set (processing_data d)" "jr_id k = cj_job_id job" "jr_status k = ''ready''" "\<not> window_unprocessed d k"
    using run_becomes_ready [OF run assms(4,5)] by blast
  have "sound_tables E api d" by (rule sound.run_keeps [OF d(1) assms(2)])
  then have "\<exists>tx. fetched E api (sr_signature x) tx \<and> tx_stored E (sy_db s') (jr_address k) tx"
    if "x \<in> set (signatures d)" "in_job_window k x" for x
    using window_complete [OF _ _ k(4) that] tx_stored_grows run_grows [OF d(2)] unfolding sound_tables_def by blast
  with d k(1-3) show ?thesis by blast
qed

theorem ready_complete_among_others_witness:
  "\<exists>s' d k. process_claimed_job script_env script_api 1 small_claim (script_start ready_db [(200, ''empty'')]) = Some s'
     \<and> program_run script_env script_api ready_db d \<and> program_run script_env script_api d (sy_db s')
     \<and> k \<in> set (processing_data d) \<and> jr_id k = 1 \<and> jr_status k = ''ready''"
proof -
  let ?s = "script_start ready_db [(200, ''empty'')]"
  have db: "sy_db ?s = ready_db" by (simp add: script_start_def)
  obtain s' where s': "process_claimed_job script_env script_api 1 small_claim ?s = Some s'"
    "processing_data (sy_db s') = [small_job 1 ''ready'']" using ready_run by blast
  have sound: "sound_tables script_env script_api (sy_db ?s)" by (simp add: db sound_tables_def ready_db_facts)
  have jobs: "\<not> job_ready (sy_db ?s) (cj_job_id small_claim)" "job_ready (sy_db s') (cj_job_id small_claim)"
    unfolding db by (simp_all add: job_ready_def s'(2) ready_db_def small_db_def) (simp_all add: small_job_def)
  from ready_complete_among_others [OF script_others_run sound s'(1) jobs] s'(1) show ?thesis
    by (simp add: db) blast
qed

end
