(* ===== verification/SystemProps.thy ===== *)
theory SystemProps
  imports System
begin

text \<open>
  What a client of the program can count on while all its tasks run: a claimed job is settled, and a
  posted job is never lost.
\<close>

section \<open>One statement among others\<close>

text \<open>A statement that does not fail acts on tables the other tasks have moved on by steps of the program.\<close>

lemma run_among:
  assumes "others_run E api" and "no_faults E"
  obtains d t where "program_run E api (sy_db s) d" and "fair_turn t"
    and "fst (run_db E stmt s) = fst (stmt t d)" and "sy_db (snd (run_db E stmt s)) = snd (stmt t d)"
proof -
  obtain d t w where e: "env_db_turn E (sy_db s) (sy_world s) = (d, t, w)" by (rule prod_cases3)
  with assms have "program_run E api (sy_db s) d" "fair_turn t" "t_fault t = None"
    unfolding others_run_def no_faults_def by (metis fst_conv, metis fst_conv snd_conv, metis fst_conv snd_conv)
  with that show thesis by (simp add: run_db_def e case_prod_beta)
qed

text \<open>A job of the queue that a worker has taken, and one that is settled.\<close>

definition queue_taken :: "db \<Rightarrow> i64 \<Rightarrow> string \<Rightarrow> bool" where
  "queue_taken d i a \<longleftrightarrow> (\<exists>p. queue_of d i = Some (a, p) \<and> p \<noteq> Pending)"

definition queue_settled :: "db \<Rightarrow> i64 \<Rightarrow> string \<Rightarrow> bool" where
  "queue_settled d i a \<longleftrightarrow> queue_of d i = Some (a, Ready) \<or> queue_of d i = Some (a, Failed)"

lemma settled_taken: "queue_settled d i a \<Longrightarrow> queue_taken d i a"
  by (auto simp: queue_settled_def queue_taken_def)

lemma advance_kept:
  assumes "queue_advances d d'"
  shows "queue_taken d i a \<Longrightarrow> queue_taken d' i a" and "queue_settled d i a \<Longrightarrow> queue_settled d' i a"
proof -
  have up: "p \<le> p' \<Longrightarrow> p \<noteq> Pending \<Longrightarrow> p' \<noteq> Pending" for p p' :: job_phase
    by (cases p; cases p') (simp_all add: less_eq_job_phase_def)
  have top: "Ready \<le> p \<Longrightarrow> p = Ready" "Failed \<le> p \<Longrightarrow> p = Failed" for p :: job_phase
    by (cases p; simp add: less_eq_job_phase_def)+
  show "queue_taken d i a \<Longrightarrow> queue_taken d' i a" using assms up unfolding queue_taken_def queue_advances_def by blast
  show "queue_settled d i a \<Longrightarrow> queue_settled d' i a"
    using assms top unfolding queue_settled_def queue_advances_def by blast
qed

lemma taken_cases:
  assumes "db_inv d" and "queue_taken d i a"
  obtains (settled) "queue_settled d i a"
    | (running) j where "j \<in> set (processing_data d)" "jr_id j = i" "jr_address j = a" "jr_status j = ''indexing''"
proof -
  obtain p where p: "queue_of d i = Some (a, p)" "p \<noteq> Pending" using assms(2) by (auto simp: queue_taken_def)
  then show thesis
  proof (cases p)
    case Indexing
    with p(1) obtain j where "j \<in> set (processing_data d)" "jr_id j = i" "job_view j = (a, Indexing)"
      using queue_of_Some [OF assms(1)] by auto
    then show thesis by (intro running [of j]) (auto simp: job_view_def)
  qed (use p settled in \<open>auto simp: queue_settled_def\<close>)
qed

text \<open>A status update that hit a row, or one to \<open>error\<close> of a job that was taken, settles the job.\<close>

lemma update_hit_settles:
  assumes "db_inv d" and "st \<in> {''ready'', ''error''}" and "queue_taken d i a"
    and "j \<in> set (processing_data d)" and "status_update_applies d i st j"
  shows "queue_settled (snd (update_processing_status_stmt i st t d)) i a"
proof -
  let ?d = "snd (update_processing_status_stmt i st t d)" and ?k = "j\<lparr>jr_status := st, jr_updated_at := t_now t\<rparr>"
  have j: "jr_id j = i" using assms(5) by (simp add: status_update_applies_def)
  then have "queue_of d i = Some (job_view j)" using queue_of_Some [OF assms(1)] assms(4) by blast
  with assms(3) have "jr_address j = a" by (auto simp: queue_taken_def job_view_def)
  moreover have "?k \<in> set (processing_data ?d)"
    using assms(4,5) by (force simp: update_processing_status_stmt_def)
  then have "queue_of ?d i = Some (job_view ?k)"
    using queue_of_Some [OF status_inv [OF assms(1)]] j by fastforce
  ultimately show ?thesis using assms(2) by (auto simp: queue_settled_def job_view_def)
qed

lemma update_advances:
  "db_inv d \<Longrightarrow> st \<in> {''ready'', ''error''} \<Longrightarrow> queue_advances d (snd (update_processing_status_stmt i st t d))"
  by (intro advances_queue_step update_refines) auto

lemma error_settles:
  assumes "others_run E api" and "no_faults E" and "db_inv (sy_db s)" and "queue_taken (sy_db s) i a"
  shows "queue_settled (sy_db (mark_job_error E i s)) i a"
proof -
  obtain d t where d: "program_run E api (sy_db s) d"
    "sy_db (snd (run_db E (update_processing_status_stmt i ''error'') s)) = snd (update_processing_status_stmt i ''error'' t d)"
    by (rule run_among [OF assms(1,2)])
  have inv: "db_inv d" by (rule consistent.run_keeps [OF d(1) assms(3)])
  have "queue_taken d i a" by (rule advance_kept(1) [OF run_advances [OF d(1) assms(3)] assms(4)])
  with inv have "queue_settled (snd (update_processing_status_stmt i ''error'' t d)) i a"
  proof (cases rule: taken_cases)
    case settled
    then show ?thesis using advance_kept(2) [OF update_advances [OF inv, of "''error''"]] by simp
  next
    case (running j)
    then have "status_update_applies d i ''error'' j" by (simp add: status_update_applies_def)
    with inv \<open>queue_taken d i a\<close> running(1) show ?thesis by (intro update_hit_settles) auto
  qed
  then show ?thesis by (simp add: mark_job_error_def update_processing_status_by_job_id_def d(2))
qed

lemma ready_settles:
  assumes "others_run E api" and "no_faults E" and "db_inv (sy_db s)" and "queue_taken (sy_db s) i a"
    and "update_processing_status_by_job_id E i ''ready'' s = (q, s')"
  shows "db_inv (sy_db s')" and "queue_taken (sy_db s') i a" and "q \<noteq> Ok 0 \<Longrightarrow> queue_settled (sy_db s') i a"
proof -
  obtain d t where d: "program_run E api (sy_db s) d"
    "fst (run_db E (update_processing_status_stmt i ''ready'') s) = fst (update_processing_status_stmt i ''ready'' t d)"
    "sy_db (snd (run_db E (update_processing_status_stmt i ''ready'') s)) = snd (update_processing_status_stmt i ''ready'' t d)"
    by (rule run_among [OF assms(1,2)])
  have r: "q = fst (update_processing_status_stmt i ''ready'' t d)" "sy_db s' = snd (update_processing_status_stmt i ''ready'' t d)"
    using assms(5) d(2,3) by (simp_all add: update_processing_status_by_job_id_def)
  have inv: "db_inv d" by (rule consistent.run_keeps [OF d(1) assms(3)])
  have taken: "queue_taken d i a" by (rule advance_kept(1) [OF run_advances [OF d(1) assms(3)] assms(4)])
  show "db_inv (sy_db s')" unfolding r(2) by (rule status_inv [OF inv])
  show "queue_taken (sy_db s') i a" unfolding r(2) by (rule advance_kept(1) [OF update_advances [OF inv] taken]) simp
  show "queue_settled (sy_db s') i a" if "q \<noteq> Ok 0"
  proof -
    from that r(1) obtain j where "j \<in> set (processing_data d)" "status_update_applies d i ''ready'' j"
      by (auto simp: update_processing_status_stmt_def filter_empty_conv)
    then show ?thesis unfolding r(2) by (intro update_hit_settles inv taken) simp_all
  qed
qed

section \<open>Properties\<close>

text \<open>C8: a claimed job is settled also among other tasks: when the statements do not fail, a job that was
  taken is \<open>ready\<close> or in error when its indexing returns, whatever the service answers and whatever
  steps of the program the other tasks take in between.\<close>

theorem job_settled_among_others:
  assumes "others_run E api" and "no_faults E" and "db_inv (sy_db s)"
    and "queue_taken (sy_db s) (cj_job_id job) a" and "process_claimed_job E api w job s = Some s'"
  shows "queue_of (sy_db s') (cj_job_id job) = Some (a, Ready) \<or> queue_of (sy_db s') (cj_job_id job) = Some (a, Failed)"
proof -
  let ?i = "cj_job_id job"
  have indexed: "db_inv (sy_db s1)" "queue_taken (sy_db s1) ?i a" if "index_job E api job s = Some (r, s1)" for r s1
  proof -
    have run: "program_run E api (sy_db s) (sy_db s1)"
      by (rule program.indexing [OF others_run_grow program.others_keep_run rtranclp.rtrancl_refl that]) (rule assms(1))+
    show "db_inv (sy_db s1)" by (rule consistent.run_keeps [OF run assms(3)])
    show "queue_taken (sy_db s1) ?i a" by (rule advance_kept(1) [OF run_advances [OF run assms(3)] assms(4)])
  qed
  have "queue_settled (sy_db s') ?i a"
    using assms(5)
  proof (cases rule: process_job_cases)
    case (failed e s1)
    then show ?thesis using error_settles [OF assms(1,2) indexed [OF failed(1)]] by simp
  next
    case (ready s1 q s2)
    note r = ready_settles [OF assms(1,2) indexed [OF ready(1)] ready(2)]
    from ready(3) error_settles [OF assms(1,2) r(1,2)] r(3) show ?thesis by auto
  qed
  then show ?thesis by (simp add: queue_settled_def)
qed

theorem job_settled_among_others_witness:
  "\<exists>s'. process_claimed_job script_env script_api 1 small_claim small_run = Some s'
     \<and> (queue_of (sy_db s') 1 = Some (''owner'', Ready) \<or> queue_of (sy_db s') 1 = Some (''owner'', Failed))"
proof -
  have inv: "db_inv (sy_db small_run)" by (simp add: small_db_inv)
  have taken: "queue_taken (sy_db small_run) (cj_job_id small_claim) ''owner''"
    by (simp add: queue_taken_def queue_of_def job_view_def small_db_def small_job_def)
  obtain s' where s': "process_claimed_job script_env script_api 1 small_claim small_run = Some s'"
    by (rule small_run_ends)
  from job_settled_among_others [OF script_others_run script_no_faults inv taken s'] s' show ?thesis by simp
qed

text \<open>C9: a posted job is never lost: when the statements do not fail, a post that is answered is answered
  with the number of a job of its address, and however the program runs on, the job keeps its address
  and \<open>GET /jobs/{id}\<close> answers 200 for it.\<close>

theorem posted_job_never_lost:
  assumes "others_run E api" and "no_faults E" and "db_inv (sy_db s)"
    and "address_processing E info p s = Some (r, s1)"
  shows "\<exists>job_id. r = ok_response (JObject [(''status'', JString ''ok''), (''job_id'', JNumber (show_int job_id))])
     \<and> (\<forall>s2. program_run E api (sy_db s1) (sy_db s2) \<longrightarrow>
          (\<exists>phase. queue_of (sy_db s2) job_id = Some (ar_address p, phase))
          \<and> hr_status (fst (job_info_route E show_utc job_id s2)) = 200)"
proof -
  let ?create = "create_processing_job_stmt (ar_address p) (ar_tx_limit p) (ar_requested_hours p)"
  obtain q s1' where q: "create_processing_job E (ar_address p) (ar_tx_limit p) (ar_requested_hours p) s = (q, s1')"
    by fastforce
  obtain d t where d: "program_run E api (sy_db s) d"
    "fst (run_db E ?create s) = fst (?create t d)" "sy_db (snd (run_db E ?create s)) = snd (?create t d)"
    by (rule run_among [OF assms(1,2)])
  let ?i = "next_job_id d"
  have inv: "db_inv d" by (rule consistent.run_keeps [OF d(1) assms(3)])
  then have inv1: "db_inv (snd (?create t d))" by (rule create_inv)
  have created: "q = Ok (Some ?i)" "sy_db s1 = snd (?create t d)"
    "r = ok_response (JObject [(''status'', JString ''ok''), (''job_id'', JNumber (show_int ?i))])"
    using q d(2,3) assms(4) by (auto simp: create_processing_job_def address_processing_eq [OF q]
        create_processing_job_stmt_def split: if_splits)
  have first: "queue_of (sy_db s1) ?i = Some (ar_address p, Pending)"
    unfolding created(2) by (subst queue_of_Some [OF inv1]) (simp add: create_processing_job_stmt_def job_view_def)
  have "(\<exists>phase. queue_of (sy_db s2) ?i = Some (ar_address p, phase))
      \<and> hr_status (fst (job_info_route E show_utc ?i s2)) = 200"
    if run: "program_run E api (sy_db s1) (sy_db s2)" for s2
  proof -
    obtain d2 t2 where d2: "program_run E api (sy_db s2) d2"
      "fst (run_db E (get_job_info_stmt ?i) s2) = fst (get_job_info_stmt ?i t2 d2)"
      by (rule run_among [OF assms(1,2)])
    have on: "\<exists>phase. queue_of d' ?i = Some (ar_address p, phase)" if "program_run E api (sy_db s1) d'" for d'
      using run_advances [OF that] first inv1 unfolding queue_advances_def created(2) by blast
    have run2: "program_run E api (sy_db s1) d2" using run d2(1) by simp
    from on [OF run2] obtain j where "j \<in> set (processing_data d2)" "jr_id j = ?i"
      using queue_of_Some [OF consistent.run_keeps [OF run2]] inv1 created(2) by fastforce
    then have "filter (\<lambda>j. jr_id j = ?i) (processing_data d2) \<noteq> []" by (auto simp: filter_empty_conv)
    then obtain k ks where "filter (\<lambda>j. jr_id j = ?i) (processing_data d2) = k # ks" by (cases "filter (\<lambda>j. jr_id j = ?i) (processing_data d2)") auto
    then have "fst (get_job_info E ?i s2) = Ok (Some (job_info_of d2 k))"
      by (simp add: get_job_info_def d2(2) get_job_info_stmt_def)
    then have "hr_status (fst (job_info_route E show_utc ?i s2)) = 200"
      by (simp add: job_info_route_def case_prod_beta ok_response_def Let_def)
    with on [OF run] show ?thesis by blast
  qed
  with created(3) show ?thesis by blast
qed

theorem posted_job_never_lost_witness:
  "\<exists>job_id r s1. address_processing script_env True \<lparr>ar_address = ''owner'', ar_requested_hours = 1, ar_tx_limit = 9\<rparr> small_run
      = Some (r, s1)
     \<and> r = ok_response (JObject [(''status'', JString ''ok''), (''job_id'', JNumber (show_int job_id))])
     \<and> hr_status (fst (job_info_route script_env (\<lambda>_. ''now'') job_id s1)) = 200"
proof -
  let ?p = "\<lparr>ar_address = ''owner'', ar_requested_hours = 1, ar_tx_limit = 9\<rparr>"
  obtain q s1 where q: "create_processing_job script_env (ar_address ?p) (ar_tx_limit ?p) (ar_requested_hours ?p) small_run = (q, s1)"
    by fastforce
  have post: "address_processing script_env True ?p small_run = Some (ok_response (analyze_body q), s1)"
    by (simp add: address_processing_eq [OF q])
  have inv: "db_inv (sy_db small_run)" by (simp add: small_db_inv)
  from posted_job_never_lost [OF script_others_run script_no_faults inv post, of script_api "\<lambda>_. ''now''"] post
  show ?thesis by blast
qed

end
