(* ===== verification/HeldLeases.thy ===== *)
theory HeldLeases
  imports IndexerProps
begin

text \<open>
  What a lease that was not given back does to the next job. A signature whose fetch failed, or whose
  worker died, stays leased for five minutes, and nothing releases it earlier. A job that starts within
  that time does not get the signature, finds nothing to do for it, and is refused its \<open>ready\<close>.
\<close>

section \<open>A row out of reach\<close>

text \<open>An unprocessed row whose lease has not run out at any time the database shows.\<close>

definition lease_held :: "'w env \<Rightarrow> sig_row \<Rightarrow> bool" where
  "lease_held E x \<longleftrightarrow>
     sr_is_processed x = Some False \<and> sr_is_processing x = Some True
     \<and> (case sr_started_at x of
          None \<Rightarrow> False
        | Some started \<Rightarrow> \<forall>d w. t_now (fst (snd (env_db_turn E d w))) \<le> started + lease_micros)"

definition row_kept :: "sig_row \<Rightarrow> db \<Rightarrow> bool" where
  "row_kept x d \<longleftrightarrow> db_inv d \<and> x \<in> set (signatures d)"

lemma held_row_passed_over:
  assumes "lease_held E x" and "env_db_turn E d w = (d', t, w')"
  shows "\<not> claimable_sig a (t_now t) x"
proof -
  obtain started where started: "sr_is_processing x = Some True" "sr_started_at x = Some started"
    "\<And>d w. t_now (fst (snd (env_db_turn E d w))) \<le> started + lease_micros"
    using assms(1) by (auto simp: lease_held_def split: option.splits)
  from started(3) [of d w] have "t_now t \<le> started + lease_micros" by (simp add: assms(2))
  with started(1,2) show ?thesis by (simp add: claimable_sig_def)
qed

lemma held_not_chosen:
  assumes "lease_held E x" and "env_db_turn E d0 w = (d', t, w')" and "fair_turn t"
    and "row_kept x d" and "sr_owner x = a"
  shows "sr_signature x \<notin> set (chosen_sigs a n t d)"
proof
  assume "sr_signature x \<in> set (chosen_sigs a n t d)"
  with assms(3) obtain y where "y \<in> set (signatures d)" "sr_signature y = sr_signature x" "claimable_sig a (t_now t) y"
    by (rule chosen_sigs_claimable)
  moreover from this have "y = x"
    using sigs_inj [of d y x] assms(4,5) by (simp add: row_kept_def claimable_sig_def)
  ultimately show False using held_row_passed_over [OF assms(1,2)] by simp
qed

section \<open>No operation of the indexer touches the row\<close>

lemma lease_spares:
  assumes "db_alone E" and "lease_held E x" and "row_kept x (sy_db s)"
    and "get_unprocessed_signatures E a n s = (q, s1)"
  shows "row_kept x (sy_db s1)" and "q = Ok sigs \<Longrightarrow> sr_owner x = a \<Longrightarrow> sr_signature x \<notin> set sigs"
proof -
  obtain d t w where e: "env_db_turn E (sy_db s) (sy_world s) = (d, t, w)" by (rule prod_cases3)
  with assms(1) have d: "d = sy_db s" "fair_turn t" unfolding db_alone_def by (metis fst_conv, metis fst_conv snd_conv)
  let ?stmt = "get_unprocessed_signatures_stmt a n"
  have r: "run_stmt t ?stmt (sy_db s) = (q, sy_db s1)"
    using assms(4) by (auto simp: get_unprocessed_signatures_def run_db_def e d(1) case_prod_beta prod_eq_iff)
  have out: "sr_owner x = a \<Longrightarrow> sr_signature x \<notin> set (chosen_sigs a m t (sy_db s))" for m
    by (rule held_not_chosen [OF assms(2) e d(2) assms(3)])
  have "row_kept x (snd (?stmt t (sy_db s)))"
    using assms(3) out by (force simp: row_kept_def sigs_claim_inv sigs_claim_rows)
  then show "row_kept x (sy_db s1)" using run_stmt_state [of t ?stmt "sy_db s"] assms(3) r by auto
  show "sr_signature x \<notin> set sigs" if "q = Ok sigs" "sr_owner x = a"
  proof -
    have inv: "db_inv (sy_db s)" using assms(3) by (simp add: row_kept_def)
    have "?stmt t (sy_db s) = (Ok sigs, sy_db s1)"
      by (rule run_stmt_Ok [THEN conjunct2]) (simp only: r that(1))
    then have "set sigs = set (chosen_sigs a (nat n) t (sy_db s))" by (rule claimed_rows(2) [OF inv d(2)])
    with out [OF that(2), of "nat n"] show ?thesis by (simp only:) simp
  qed
qed

lemma mark_spares:
  assumes "row_kept x d" and "sr_owner x = a \<Longrightarrow> sr_signature x \<notin> set xs"
  shows "row_kept x (snd (mark_signatures_processed_stmt a xs t d))"
  using assms by (force simp: row_kept_def mark_inv mark_rows mark_applies_def)

lemma page_spares: "row_kept x d \<Longrightarrow> row_kept x (snd (write_signatures_stmt p a t d))"
  by (simp add: row_kept_def write_inv write_signatures_rows sigtab.ins_keeps)

lemma batch_subset:
  assumes "get_transaction E api sigs s = Some (Ok b, s')"
  shows "set (tb_processed_signatures b) \<subseteq> set sigs"
proof -
  have sub: "set (map fst (successes os)) \<subseteq> set sigs" if "list_all2 (fetch_ok E api) sigs os" for sigs os
    using that
  proof (induction sigs os rule: list_all2_induct)
    case (Cons sig sigs out os)
    then show ?case by (cases out) auto
  qed simp
  obtain os where os: "list_all2 (fetch_ok E api) sigs os"
    "(Ok b :: transaction_batch result) = Ok (batch_of (calculate_token_transfer (env_pow_f64 E)) os)"
    by (rule get_transaction_batch [where Q = "fetch_ok E api", OF _ assms]) (rule fetch_is_ok)
  with sub [OF os(1)] show ?thesis by (simp add: batch_of_def)
qed

lemma save_spares:
  assumes "db_alone E" and "row_kept x (sy_db s)"
  shows "row_kept x (sy_db (snd (save_transaction_data E txs a s)))"
  by (rule save_keeps [where P = "row_kept x", OF db_alone_keeps [OF assms(1)] assms(2)])
    (simp_all add: row_kept_def write_txs_inv write_transfers_inv frame_simps)

lemma marking_spares:
  assumes "db_alone E" and "row_kept x (sy_db s)" and "sr_owner x = a \<Longrightarrow> sr_signature x \<notin> set xs"
  shows "row_kept x (sy_db (snd (mark_signatures_processed E a xs s)))"
proof -
  obtain t where t: "sy_db (snd (run_db E (mark_signatures_processed_stmt a xs) s)) =
      snd (run_stmt t (mark_signatures_processed_stmt a xs) (sy_db s))"
    by (rule run_db_alone [OF assms(1)])
  have "row_kept x (snd (mark_signatures_processed_stmt a xs t (sy_db s)))" by (rule mark_spares [OF assms(2,3)])
  then have "row_kept x (sy_db (snd (run_db E (mark_signatures_processed_stmt a xs) s)))"
    unfolding t using run_stmt_state [of t _ "sy_db s"] assms(2) by (metis empty_iff insert_iff)
  then show ?thesis using assms(2) by (auto simp: mark_signatures_processed_def split: if_splits)
qed

lemma process_loop_spares:
  assumes alone: "db_alone E" and held: "lease_held E x"
    and r: "process_unprocessed_signatures E api a s = Some (r, s')" and s: "row_kept x (sy_db s)"
  shows "row_kept x (sy_db s')"
proof -
  let ?I = "\<lambda>s. row_kept x (sy_db s)"
  note keep = db_alone_keeps [OF alone]
  have "E' = E \<longrightarrow> ?I s \<longrightarrow> ?I (snd y)" if "process_unprocessed_signatures E' api a s = Some y" for E' api a s y
  proof (rule process_unprocessed_signatures.raw_induct [where
      P = "\<lambda>E' api a s y. E' = E \<longrightarrow> ?I s \<longrightarrow> ?I (snd y)", OF _ that], intro impI, goal_cases)
    case (1 loop E' api a s y)
    obtain q s1 where q: "get_unprocessed_signatures E a 100 s = (q, s1)" by fastforce
    note s1 = lease_spares(1) [OF alone held 1(4) q]
    show ?case
    proof (cases "\<exists>sigs. q = Ok sigs \<and> sigs \<noteq> []")
      case False
      with 1 q s1 show ?thesis by (cases q) auto
    next
      case True
      then obtain sigs where sigs: "q = Ok sigs" "sigs \<noteq> []" by blast
      with 1(2,3) q obtain g s2 where g: "get_transaction E api sigs s1 = Some (g, s2)"
        by (auto simp: bind_eq_Some_conv)
      obtain b where b: "g = Ok b" using batch_fetched [OF g] by blast
      have s2: "?I s2" using s1 get_transaction_db [OF g] by simp
      obtain v s3 where v: "save_transaction_data E (tb_transactions b) a s2 = (v, s3)" by fastforce
      have s3: "?I s3" using save_spares [OF alone s2] v by (metis snd_conv)
      obtain m s4 where m: "mark_signatures_processed E a (tb_processed_signatures b) s3 = (m, s4)" by fastforce
      have "sr_owner x = a \<Longrightarrow> sr_signature x \<notin> set (tb_processed_signatures b)"
        using batch_subset [OF g [unfolded b]] lease_spares(2) [OF alone held 1(4) q sigs(1)] by blast
      with s3 have s4: "?I s4" using marking_spares [OF alone, of x s3 a] m by (metis snd_conv)
      show ?thesis using 1 q sigs g b v m s3 s4 by (auto split: sum.splits if_splits)
    qed
  qed
  from this [OF r] s show ?thesis by simp
qed

lemma index_job_spares:
  assumes "db_alone E" and "lease_held E x" and "index_job E api job s = Some (r, s')" and "row_kept x (sy_db s)"
  shows "row_kept x (sy_db s')"
proof -
  have "row_kept x (sy_db s1)" if "fetch_signatures_loop E api a mx h cur seen s = Some (q, s1)" for a mx h cur seen q s1
    by (rule fetch_signatures_loop_keeps [where P = "row_kept x", OF db_alone_keeps [OF assms(1)] _ that assms(4)])
      (rule page_spares)
  then show ?thesis using index_job_cases [OF assms(3)] process_loop_spares [OF assms(1,2)] by metis
qed

section \<open>A failed fetch keeps its lease\<close>

text \<open>A request for work that succeeds, seen as the statement, and the row it leases.\<close>

lemma asked_stmt:
  assumes "db_alone E" and "get_unprocessed_signatures E a n s = (Ok sigs, s1)"
  shows "fair_turn (fst (snd (env_db_turn E (sy_db s) (sy_world s))))"
    and "get_unprocessed_signatures_stmt a n (fst (snd (env_db_turn E (sy_db s) (sy_world s)))) (sy_db s) =
      (Ok sigs, sy_db s1)"
proof -
  obtain d t w where e: "env_db_turn E (sy_db s) (sy_world s) = (d, t, w)" by (rule prod_cases3)
  with assms(1) have d: "d = sy_db s" "fair_turn t" unfolding db_alone_def by (metis fst_conv, metis fst_conv snd_conv)
  have "run_stmt t (get_unprocessed_signatures_stmt a n) (sy_db s) = (Ok sigs, sy_db s1)"
    using assms(2) by (auto simp: get_unprocessed_signatures_def run_db_def e d(1) case_prod_beta prod_eq_iff)
  from run_stmt_Ok [OF this] d(2) e
  show "fair_turn (fst (snd (env_db_turn E (sy_db s) (sy_world s))))"
    and "get_unprocessed_signatures_stmt a n (fst (snd (env_db_turn E (sy_db s) (sy_world s)))) (sy_db s) =
      (Ok sigs, sy_db s1)" by simp_all
qed

lemma fresh_lease:
  assumes "db_inv d" and "fair_turn t" and "get_unprocessed_signatures_stmt a n t d = (Ok sigs, d')" and "sig \<in> set sigs"
  obtains x where "row_kept x d'" and "sr_owner x = a" and "sr_signature x = sig"
    and "sr_is_processed x = Some False" and "sr_is_processing x = Some True" and "sr_started_at x = Some (t_now t)"
proof -
  note rows = claimed_rows [OF assms(1-3)]
  obtain y where y: "y \<in> set (signatures d)" "sr_signature y = sig" "claimable_sig a (t_now t) y"
    using chosen_sigs_claimable [OF assms(2), of sig a "nat n" d] assms(4) rows(2) by blast
  let ?x = "y\<lparr>sr_is_processing := Some True, sr_started_at := Some (t_now t)\<rparr>"
  have "db_inv d'" using sigs_claim_inv [OF assms(1), of a n t] assms(3) by simp
  moreover have "?x \<in> set (signatures d')" using y assms(4) by (force simp: rows(4) claimable_sig_def)
  ultimately have "row_kept ?x d'" by (simp add: row_kept_def)
  then show thesis by (rule that) (use y in \<open>simp_all add: claimable_sig_def\<close>)
qed

text \<open>What a batch reports as failed is apart from what it reports as processed.\<close>

lemma batch_failed_apart:
  assumes "retries_fit api" and "distinct sigs" and "get_transaction E api sigs s = Some (Ok b, s')"
    and "x \<in> set (tb_failed_signatures b)"
  shows "x \<in> set sigs" and "x \<notin> set (tb_processed_signatures b)" and "tb_errors b \<noteq> []"
proof -
  obtain os where os: "list_all2 (outcome_sound E) sigs os"
    "(Ok b :: transaction_batch result) = Ok (batch_of (calculate_token_transfer (env_pow_f64 E)) os)"
    by (rule get_transaction_batch [OF fetch_sound [OF assms(1)] assms(3)])
  have parts: "mset (tb_processed_signatures b) + mset (tb_failed_signatures b) = mset sigs"
    using outcomes_mset [OF os(1)] os(2) by (simp add: batch_of_def)
  then show "x \<in> set sigs" using assms(4) by (metis set_mset_mset union_iff)
  have "distinct (tb_processed_signatures b @ tb_failed_signatures b)"
    using parts assms(2) by (metis mset_append mset_eq_imp_distinct_iff)
  with assms(4) show "x \<notin> set (tb_processed_signatures b)" by auto
  show "tb_errors b \<noteq> []" using assms(4) os(2) by (auto simp: batch_of_def)
qed

section \<open>Properties\<close>

text \<open>C6: a failed fetch keeps its lease: with no other client of the database (which keeps its keys) and a
  number of attempts that fits a \<open>usize\<close>, when a signature of a batch could not be fetched, the run over the
  leased signatures, if it returns, ends with an error, and the signature is left unprocessed and leased
  from the moment of the request for work, whether the rest of the batch could be stored or not.\<close>

theorem failed_fetch_keeps_lease:
  assumes "db_alone E" and "retries_fit api" and "db_inv (sy_db s)"
    and "get_unprocessed_signatures E a 100 s = (Ok sigs, s1)"
    and "get_transaction E api sigs s1 = Some (Ok b, s2)" and "sig \<in> set (tb_failed_signatures b)"
    and "process_unprocessed_signatures E api a s = Some (r, s')"
  shows "(\<exists>e. r = Err e) \<and> (\<exists>x \<in> set (signatures (sy_db s')).
       sr_owner x = a \<and> sr_signature x = sig \<and> sr_is_processed x = Some False \<and> sr_is_processing x = Some True
     \<and> sr_started_at x = Some (t_now (fst (snd (env_db_turn E (sy_db s) (sy_world s))))))"
proof -
  note asked = asked_stmt [OF assms(1,4)]
  note f = batch_failed_apart [OF assms(2) claimed_rows(3) [OF assms(3) asked] assms(5,6)]
  obtain x where x: "row_kept x (sy_db s1)" "sr_owner x = a" "sr_signature x = sig"
    "sr_is_processed x = Some False" "sr_is_processing x = Some True"
    "sr_started_at x = Some (t_now (fst (snd (env_db_turn E (sy_db s) (sy_world s)))))"
    by (rule fresh_lease [OF assms(3) asked f(1)])
  obtain v s3 where v: "save_transaction_data E (tb_transactions b) a s2 = (v, s3)" by fastforce
  obtain m s4 where m: "mark_signatures_processed E a (tb_processed_signatures b) s3 = (m, s4)" by fastforce
  have s3: "row_kept x (sy_db s3)"
    using save_spares [OF assms(1), of x s2] x(1) get_transaction_db [OF assms(5)] v by (metis snd_conv)
  have s4: "row_kept x (sy_db s4)"
    using marking_spares [OF assms(1) s3, of a] f(2) x(3) m by (metis snd_conv)
  have "sigs \<noteq> []" using f(1) by auto
  then have "(\<exists>e. r = Err e) \<and> (s' = s3 \<or> s' = s4)"
    using assms(7) f(3) by (subst (asm) process_unprocessed_signatures.simps)
      (auto simp: assms(4,5) v m split: sum.splits)
  then have "(\<exists>e. r = Err e)" "row_kept x (sy_db s')" using s3 s4 by blast+
  then show ?thesis using x(2-) by (auto simp: row_kept_def)
qed

lemma script_null_batch:
  "\<exists>b s'. get_transaction script_env script_api [''s1''] (script_start d [(200, ''null'')]) = Some (Ok b, s')
     \<and> tb_failed_signatures b = [''s1'']"
  by (simp add: get_transaction_def chunks_step script_start_def fetch_transaction_chunk_def
        fetch_transaction_by_signature_def script_attempts try_fetch_transaction_once_def send_script
        classify_reply_def script_envelope_def reset_rate_limit_backoff_if_idle_def Let_def
        append_batch_def empty_batch_def log_first_error_def)

theorem failed_fetch_keeps_lease_witness:
  "\<exists>r s'. process_unprocessed_signatures script_env script_api ''owner''
        (script_start (small_db ''indexing'' False) [(200, ''null'')]) = Some (Err r, s')
     \<and> (\<exists>x \<in> set (signatures (sy_db s')).
          sr_signature x = ''s1'' \<and> sr_is_processing x = Some True \<and> sr_started_at x = Some 3600000000)"
proof -
  let ?s = "script_start (small_db ''indexing'' False) [(200, ''null'')]"
  obtain d where ask: "get_unprocessed_signatures script_env ''owner'' 100 ?s =
      (Ok [''s1''], script_start d [(200, ''null'')])"
    by (simp add: get_unprocessed_signatures_def run_db_def script_start_def script_turn_def
        get_unprocessed_signatures_stmt_def chosen_sigs_def small_db_def claimable_sig_def lease_micros_def)
  obtain b s2 where got: "get_transaction script_env script_api [''s1''] (script_start d [(200, ''null'')]) = Some (Ok b, s2)"
      "tb_failed_signatures b = [''s1'']"
    using script_null_batch by blast
  have inv: "db_inv (sy_db ?s)" by (simp add: script_start_def small_db_inv)
  obtain r s' where run: "process_unprocessed_signatures script_env script_api ''owner'' ?s = Some (r, s')"
    using process_loop_returns [OF script_unhindered script_db_alone(1), of ?s "''owner''"]
    by (auto simp: script_start_def)
  have "''s1'' \<in> set (tb_failed_signatures b)" by (simp add: got(2))
  from failed_fetch_keeps_lease [OF script_db_alone(1) script_api_fit inv ask got(1) this run] run
  show ?thesis by (fastforce simp: script_turn_def)
qed

text \<open>C7: a retry within the lease fails: with no other client of the database (which keeps its
  keys) and no failing statement, when a signature of the job's window is still leased from an earlier run,
  and the lease does not run out while the job is indexed, the job, if its indexing returns, ends in error
  and the signature keeps its lease, whatever the service answers, also when it answers everything.\<close>

theorem retry_within_lease_fails:
  assumes "db_alone E" and "no_faults E" and "db_inv (sy_db s)" and "j \<in> set (processing_data (sy_db s))"
    and "jr_status j = ''indexing''" and "jr_id j = cj_job_id job"
    and "x \<in> set (signatures (sy_db s))" and "in_job_window j x" and "lease_held E x"
    and "process_claimed_job E api w job s = Some s'"
  shows "x \<in> set (signatures (sy_db s'))
     \<and> (\<exists>k \<in> set (processing_data (sy_db s')). job_const k = job_const j \<and> jr_status k = ''error'')"
proof -
  obtain st n q s1 where r: "index_job E api job s = Some (q, s1)"
    "st = ''error'' \<or> st = ''ready'' \<and> \<not> window_unprocessed (sy_db s1) j"
    "sy_db s' = settle_row j st n (sy_db s1)" "processing_data (sy_db s1) = processing_data (sy_db s)"
    using process_job_result [OF assms(1-6,10)] by metis
  have x: "x \<in> set (signatures (sy_db s1))"
    using index_job_spares [OF assms(1,9) r(1)] assms(3,7) by (simp add: row_kept_def)
  have "window_unprocessed (sy_db s1) j"
    using x assms(8,9) unfolding window_unprocessed_def list_ex_iff by (auto simp: lease_held_def)
  with r(2) have st: "st = ''error''" by simp
  have "j\<lparr>jr_status := st, jr_updated_at := n\<rparr> \<in> set (processing_data (sy_db s'))"
    unfolding r(3) by (rule settle_row_member) (simp add: r(4) assms(4))
  moreover have "x \<in> set (signatures (sy_db s'))" using x by (simp add: r(3) settle_row_def)
  ultimately show ?thesis
    using st by (intro conjI bexI [of _ "j\<lparr>jr_status := st, jr_updated_at := n\<rparr>"]) (simp_all add: job_const_def)
qed

text \<open>The service of the witness is ready to answer for the leased signature.\<close>

definition held_row :: sig_row where
  "held_row = \<lparr>sr_owner = ''owner'', sr_signature = ''s1'', sr_block_time = Some 1800,
     sr_is_processed = Some False, sr_is_processing = Some True, sr_started_at = Some 3400000000\<rparr>"

definition held_db :: db where
  "held_db = (small_db ''indexing'' False)\<lparr>signatures := [held_row]\<rparr>"

theorem retry_within_lease_fails_witness:
  "\<exists>s'. process_claimed_job script_env script_api 1 small_claim (script_start held_db [(200, ''one''), (200, ''tx'')]) = Some s'
     \<and> held_row \<in> set (signatures (sy_db s'))
     \<and> (\<exists>k \<in> set (processing_data (sy_db s')). jr_id k = 1 \<and> jr_status k = ''error'')"
proof -
  let ?s = "script_start held_db [(200, ''one''), (200, ''tx'')]" and ?j = "small_job 1 ''indexing''"
  have db: "sy_db ?s = held_db" by (simp add: script_start_def)
  have j: "?j \<in> set (processing_data (sy_db ?s))" "held_row \<in> set (signatures (sy_db ?s))"
    unfolding db by (simp_all add: held_db_def small_db_def)
  have st: "jr_status ?j = ''indexing''" "jr_id ?j = cj_job_id small_claim" by (simp_all add: small_job_def)
  have inv: "db_inv (sy_db ?s)" unfolding db by (simp add: held_db_def db_inv_def small_db_def small_job_def)
  have win: "in_job_window ?j held_row" by (simp add: in_job_window_def held_row_def small_job_def epoch_bigint_def)
  have held: "lease_held script_env held_row"
    by (simp add: lease_held_def held_row_def lease_micros_def) (simp add: script_turn_def)
  obtain s' where s': "process_claimed_job script_env script_api 1 small_claim ?s = Some s'"
    by (rule script_indexing_ends [of ?s]) (simp add: script_start_def held_db_def loggable_db_def held_row_def)
  from retry_within_lease_fails [OF script_db_alone(1) script_no_faults inv j(1) st j(2) win held s'] s' show ?thesis
    by (fastforce simp: job_const_def small_job_def)
qed

end
