(* ===== verification/RequestSlots.thy ===== *)
theory RequestSlots
  imports World
begin

text \<open>
  Several requests of one client at a time: what \<open>Limiter\<close> models for one task, taken as steps between
  the awaits of \<open>acquire_request_slot\<close> and \<open>send_rpc_request\<close>. A task waits out a cooldown, takes a
  permit of the semaphore, waits out a cooldown again, waits for the quota, sends, and gives the permit
  back when the body has been read or the request failed.
\<close>

section \<open>Steps\<close>

datatype slot_phase = Arriving | Queued | Permitted | Admitted | InFlight | Finished

record slots =
  sl_permits :: nat
  sl_tasks :: "slot_phase list"
  sl_now :: nanos
  sl_until :: "nanos option"

definition holds_permit :: "slot_phase \<Rightarrow> bool" where
  "holds_permit p \<longleftrightarrow> p \<in> {Permitted, Admitted, InFlight}"

definition cooling :: "slots \<Rightarrow> bool" where
  "cooling s \<longleftrightarrow> (case sl_until s of None \<Rightarrow> False | Some u \<Rightarrow> sl_now s < u)"

definition move_task :: "nat \<Rightarrow> slot_phase \<Rightarrow> slots \<Rightarrow> slots" where
  "move_task i p s = s\<lparr>sl_tasks := (sl_tasks s)[i := p]\<rparr>"

definition phase_is :: "slots \<Rightarrow> nat \<Rightarrow> slot_phase \<Rightarrow> bool" where
  "phase_is s i p \<longleftrightarrow> i < length (sl_tasks s) \<and> sl_tasks s ! i = p"

text \<open>A task whose cooldown is in force sleeps, which is a step of the clock; one that finds none clears
  the field. \<open>send\<close> waits for the quota only. A finished task may register a rate limit and try again,
  or stand for the next request.\<close>

inductive slot_step :: "slots \<Rightarrow> slots \<Rightarrow> bool" where
  cooled: "phase_is s i Arriving \<Longrightarrow> \<not> cooling s \<Longrightarrow> slot_step s (move_task i Queued (s\<lparr>sl_until := None\<rparr>))"
| acquire: "phase_is s i Queued \<Longrightarrow> 0 < sl_permits s \<Longrightarrow>
    slot_step s (move_task i Permitted (s\<lparr>sl_permits := sl_permits s - 1\<rparr>))"
| admit: "phase_is s i Permitted \<Longrightarrow> \<not> cooling s \<Longrightarrow> slot_step s (move_task i Admitted (s\<lparr>sl_until := None\<rparr>))"
| send: "phase_is s i Admitted \<Longrightarrow> slot_step s (move_task i InFlight s)"
| reply: "phase_is s i InFlight \<Longrightarrow> slot_step s (move_task i Finished (s\<lparr>sl_permits := sl_permits s + 1\<rparr>))"
| cancel: "phase_is s i p \<Longrightarrow> holds_permit p \<Longrightarrow>
    slot_step s (move_task i Finished (s\<lparr>sl_permits := sl_permits s + 1\<rparr>))"
| leave: "phase_is s i p \<Longrightarrow> \<not> holds_permit p \<Longrightarrow> slot_step s (move_task i Finished s)"
| again: "phase_is s i Finished \<Longrightarrow> slot_step s (move_task i Arriving s)"
| limited: "phase_is s i Finished \<Longrightarrow>
    slot_step s (s\<lparr>sl_until := Some (case sl_until s of None \<Rightarrow> u | Some v \<Rightarrow> max u v)\<rparr>)"
| tick: "slot_step s (s\<lparr>sl_now := sl_now s + d\<rparr>)"

inductive_cases slot_step_cases: "slot_step s s'"

inductive slot_reach :: "slots \<Rightarrow> slots \<Rightarrow> bool" for s0 where
  here: "slot_reach s0 s0"
| step: "slot_reach s0 s \<Longrightarrow> slot_step s s' \<Longrightarrow> slot_reach s0 s'"

definition slots_start :: "nat \<Rightarrow> nat \<Rightarrow> slots" where
  "slots_start max_concurrent n = \<lparr>sl_permits = max_concurrent, sl_tasks = replicate n Arriving, sl_now = 0, sl_until = None\<rparr>"

lemma move_task_sel [simp]:
  "sl_permits (move_task i p s) = sl_permits s" "sl_tasks (move_task i p s) = (sl_tasks s)[i := p]"
  "sl_now (move_task i p s) = sl_now s" "sl_until (move_task i p s) = sl_until s"
  by (simp_all add: move_task_def)

section \<open>Permits are conserved\<close>

definition holders :: "slots \<Rightarrow> nat" where
  "holders s = length (filter holds_permit (sl_tasks s))"

lemma filter_update_count:
  "i < length xs \<Longrightarrow> length (filter P (xs[i := y])) + (if P (xs ! i) then 1 else 0) =
     length (filter P xs) + (if P y then 1 else 0)"
proof (induction xs arbitrary: i)
  case (Cons x xs)
  then show ?case using Cons.IH [of "i - 1"] by (cases i) (simp_all split: if_splits)
qed simp

lemma holders_move:
  assumes "phase_is s i p"
  shows "length (filter holds_permit ((sl_tasks s)[i := q])) + (if holds_permit p then 1 else 0) =
     holders s + (if holds_permit q then 1 else 0)"
  using filter_update_count [of i "sl_tasks s" holds_permit q] assms by (simp add: phase_is_def holders_def)

lemma holds_permit_simps [simp]:
  "\<not> holds_permit Arriving" "\<not> holds_permit Queued" "holds_permit Permitted" "holds_permit Admitted"
  "holds_permit InFlight" "\<not> holds_permit Finished"
  by (simp_all add: holds_permit_def)

lemma slot_step_permits:
  "slot_step s s' \<Longrightarrow> sl_permits s' + holders s' = sl_permits s + holders s"
proof (induction rule: slot_step.induct)
  case (cooled s i) then show ?case using holders_move [OF cooled(1), of Queued] by (simp add: holders_def)
next
  case (acquire s i) then show ?case using holders_move [OF acquire(1), of Permitted] by (simp add: holders_def)
next
  case (admit s i) then show ?case using holders_move [OF admit(1), of Admitted] by (simp add: holders_def)
next
  case (send s i) then show ?case using holders_move [OF send(1), of InFlight] by (simp add: holders_def)
next
  case (reply s i) then show ?case using holders_move [OF reply(1), of Finished] by (simp add: holders_def)
next
  case (cancel s i p) then show ?case using holders_move [OF cancel(1), of Finished] by (simp add: holders_def)
next
  case (leave s i p) then show ?case using holders_move [OF leave(1), of Finished] by (simp add: holders_def)
next
  case (again s i) then show ?case using holders_move [OF again(1), of Arriving] by (simp add: holders_def)
qed (simp_all add: holders_def)

lemma slot_reach_permits:
  "slot_reach s0 s \<Longrightarrow> sl_permits s + holders s = sl_permits s0 + holders s0"
  by (induction rule: slot_reach.induct) (simp_all add: slot_step_permits)

section \<open>Properties\<close>

text \<open>C20: never more than \<open>max_concurrent\<close> requests are in flight, whatever the tasks do, and a permit that
  was taken is always given back: the permits left and the tasks that hold one add up to
  \<open>max_concurrent\<close>. With \<open>max_concurrent\<close> zero nothing is ever sent.\<close>

theorem in_flight_bounded:
  assumes "slot_reach (slots_start max_concurrent n) s"
  shows "length (filter (\<lambda>p. p = InFlight) (sl_tasks s)) \<le> max_concurrent
     \<and> sl_permits s + holders s = max_concurrent"
proof -
  have total: "sl_permits s + holders s = max_concurrent"
    using slot_reach_permits [OF assms] by (simp add: slots_start_def holders_def)
  have "length (filter (\<lambda>p. p = InFlight) ps) \<le> length (filter holds_permit ps)" for ps
    by (induction ps) auto
  from this [of "sl_tasks s"] total show ?thesis by (simp add: holders_def)
qed

text \<open>Two tasks with a permit each; the reply to the second one is a rate limit of a minute, registered
  while the first one waits for the quota.\<close>

definition overtaken :: slots where
  "overtaken = \<lparr>sl_permits = 1, sl_tasks = [Admitted, Finished], sl_now = 0, sl_until = Some 60000000000\<rparr>"

lemma overtaken_reached: "slot_reach (slots_start 2 2) overtaken"
proof -
  let ?st = "\<lambda>m ps u. \<lparr>sl_permits = m, sl_tasks = ps, sl_now = 0, sl_until = u\<rparr>"
  note defs = slots_start_def move_task_def phase_is_def cooling_def overtaken_def numeral_2_eq_2
  have 1: "slot_step (slots_start 2 2) (?st 2 [Queued, Arriving] None)"
    using slot_step.cooled [of "slots_start 2 2" 0] by (simp add: defs)
  have 2: "slot_step (?st 2 [Queued, Arriving] None) (?st 2 [Queued, Queued] None)"
    using slot_step.cooled [of "?st 2 [Queued, Arriving] None" 1] by (simp add: defs)
  have 3: "slot_step (?st 2 [Queued, Queued] None) (?st 1 [Permitted, Queued] None)"
    using slot_step.acquire [of "?st 2 [Queued, Queued] None" 0] by (simp add: defs)
  have 4: "slot_step (?st 1 [Permitted, Queued] None) (?st 0 [Permitted, Permitted] None)"
    using slot_step.acquire [of "?st 1 [Permitted, Queued] None" 1] by (simp add: defs)
  have 5: "slot_step (?st 0 [Permitted, Permitted] None) (?st 0 [Admitted, Permitted] None)"
    using slot_step.admit [of "?st 0 [Permitted, Permitted] None" 0] by (simp add: defs)
  have 6: "slot_step (?st 0 [Admitted, Permitted] None) (?st 0 [Admitted, Admitted] None)"
    using slot_step.admit [of "?st 0 [Admitted, Permitted] None" 1] by (simp add: defs)
  have 7: "slot_step (?st 0 [Admitted, Admitted] None) (?st 0 [Admitted, InFlight] None)"
    using slot_step.send [of "?st 0 [Admitted, Admitted] None" 1] by (simp add: defs)
  have 8: "slot_step (?st 0 [Admitted, InFlight] None) (?st 1 [Admitted, Finished] None)"
    using slot_step.reply [of "?st 0 [Admitted, InFlight] None" 1] by (simp add: defs)
  have 9: "slot_step (?st 1 [Admitted, Finished] None) overtaken"
    using slot_step.limited [of "?st 1 [Admitted, Finished] None" 1 60000000000] by (simp add: defs)
  show ?thesis
    by (rule slot_reach.here [THEN slot_reach.step, OF 1, THEN slot_reach.step, OF 2, THEN slot_reach.step, OF 3,
          THEN slot_reach.step, OF 4, THEN slot_reach.step, OF 5, THEN slot_reach.step, OF 6,
          THEN slot_reach.step, OF 7, THEN slot_reach.step, OF 8, THEN slot_reach.step, OF 9])
qed

theorem in_flight_bounded_witness:
  "slot_reach (slots_start 2 2) overtaken \<and> sl_permits overtaken + holders overtaken = 2"
  using in_flight_bounded [OF overtaken_reached] overtaken_reached by simp

text \<open>C21: the cooldown has a gap: it is checked before the wait for the quota and not after it, so a
  request can be sent while a cooldown registered during that wait is in force.\<close>

theorem cooldown_overtaken:
  "\<exists>s. slot_reach (slots_start 2 2) s \<and> cooling s \<and> phase_is s 0 Admitted \<and> slot_step s (move_task 0 InFlight s)"
proof -
  have "phase_is overtaken 0 Admitted" "cooling overtaken" by (simp_all add: phase_is_def cooling_def overtaken_def)
  with overtaken_reached slot_step.send show ?thesis by blast
qed

end
