(* ===== verification/Conformance.thy ===== *)
theory Conformance
  imports Client
begin

text \<open>
  The unit tests of \<open>src/requests/client.rs\<close>, translated like the code they test: a test is the
  conjunction of its assertions, under the name of its function. Each holds of the model. What the tests
  leave to a library is an argument: the date parser, and the clock of \<open>parse_retry_after\<close>.
\<close>

section \<open>The window filter\<close>

definition create_signature :: "string \<Rightarrow> i64 option \<Rightarrow> signature_info" where
  "create_signature signature ts = \<lparr>sig_block_time = ts, sig_signature = signature\<rparr>"

definition should_return_all_signatures_when_all_are_fresh :: bool where
  "should_return_all_signatures_when_all_are_fresh =
     (let now = 10000;
          signatures = [create_signature ''sig-1'' (Some now), create_signature ''sig-2'' (Some (now - 60))];
          result = take_recent_signatures_at signatures 1 now
      in length (rs_signatures result) = 2
         \<and> sig_signature (rs_signatures result ! 0) = ''sig-1''
         \<and> sig_signature (rs_signatures result ! 1) = ''sig-2''
         \<and> \<not> rs_reached_cutoff result
         \<and> rs_skipped_null_block_time result = 0)"

definition should_break_when_old_signature_reaches_cutoff :: bool where
  "should_break_when_old_signature_reaches_cutoff =
     (let now = 10000;
          signatures = [create_signature ''sig-1'' (Some now), create_signature ''sig-2'' (Some (now - 30)),
            create_signature ''sig-old'' (Some (now - 7200)), create_signature ''sig-after-old'' (Some now)];
          result = take_recent_signatures_at signatures 1 now
      in length (rs_signatures result) = 2
         \<and> sig_signature (rs_signatures result ! 0) = ''sig-1''
         \<and> sig_signature (rs_signatures result ! 1) = ''sig-2''
         \<and> rs_reached_cutoff result
         \<and> rs_skipped_null_block_time result = 0)"

definition should_skip_none_block_time_without_breaking_iteration :: bool where
  "should_skip_none_block_time_without_breaking_iteration =
     (let now = 10000;
          signatures = [create_signature ''sig-none-1'' None, create_signature ''sig-fresh'' (Some (now - 60)),
            create_signature ''sig-none-2'' None, create_signature ''sig-fresh-2'' (Some (now - 120))];
          result = take_recent_signatures_at signatures 1 now
      in length (rs_signatures result) = 2
         \<and> sig_signature (rs_signatures result ! 0) = ''sig-fresh''
         \<and> sig_signature (rs_signatures result ! 1) = ''sig-fresh-2''
         \<and> \<not> rs_reached_cutoff result
         \<and> rs_skipped_null_block_time result = 2)"

definition should_return_empty_result_for_empty_input :: bool where
  "should_return_empty_result_for_empty_input =
     (let result = take_recent_signatures_at [] 1 10000
      in rs_signatures result = [] \<and> \<not> rs_reached_cutoff result \<and> rs_skipped_null_block_time result = 0)"

definition should_treat_negative_hours_the_same_as_zero_hours :: bool where
  "should_treat_negative_hours_the_same_as_zero_hours =
     (let now = 10000;
          current_second = create_signature ''sig-now'' (Some now);
          previous_second = create_signature ''sig-prev'' (Some (now - 1));
          signatures = [current_second, previous_second];
          zero_hours = take_recent_signatures_at signatures 0 now;
          negative_hours = take_recent_signatures_at signatures (- 1) now
      in length (rs_signatures zero_hours) = 1
         \<and> sig_signature (rs_signatures zero_hours ! 0) = ''sig-now''
         \<and> rs_reached_cutoff zero_hours
         \<and> length (rs_signatures negative_hours) = 1
         \<and> sig_signature (rs_signatures negative_hours ! 0) = ''sig-now''
         \<and> rs_reached_cutoff negative_hours)"

lemmas window_tests =
  should_return_all_signatures_when_all_are_fresh_def
  should_break_when_old_signature_reaches_cutoff_def
  should_skip_none_block_time_without_breaking_iteration_def
  should_return_empty_result_for_empty_input_def
  should_treat_negative_hours_the_same_as_zero_hours_def

lemma window_tests_pass:
  "should_return_all_signatures_when_all_are_fresh"
  "should_break_when_old_signature_reaches_cutoff"
  "should_skip_none_block_time_without_breaking_iteration"
  "should_return_empty_result_for_empty_input"
  "should_treat_negative_hours_the_same_as_zero_hours"
  by (simp_all add: window_tests take_recent_signatures_at_def cutoff_of_def wrap_i64_def create_signature_def)

section \<open>The snippet of a body\<close>

definition should_truncate_text_to_max_length_and_add_ellipsis :: bool where
  "should_truncate_text_to_max_length_and_add_ellipsis =
     (let result = body_snippet (replicate 250 (CHR ''X'')) in length result = 203 \<and> suffix ''...'' result)"

text \<open>A line feed is \<open>CHR 0x0A\<close>, a carriage return \<open>CHR 0x0D\<close>.\<close>

definition should_remove_special_ch :: bool where
  "should_remove_special_ch =
     (let body = ''text'' @ [CHR 0x0A, CHR 0x0A] @ ''text'' @ [CHR 0x0D, CHR 0x0D] @ ''text'' @ [CHR 0x0A]
            @ ''123'' @ [CHR 0x0A, CHR 0x0D];
          result = body_snippet body
      in result = ''text  text  text 123  ''
         \<and> \<not> contains result [CHR 0x0D] \<and> \<not> contains result [CHR 0x0A])"

definition should_not_change_the_short_text :: bool where
  "should_not_change_the_short_text = (body_snippet ''Short text'' = ''Short text'')"

definition should_handle_exactly_limit_length_without_ellipsis :: bool where
  "should_handle_exactly_limit_length_without_ellipsis =
     (let result = body_snippet (replicate 200 (CHR ''X'')) in \<not> suffix ''...'' result)"

definition blank_newline :: "char \<Rightarrow> char" where
  "blank_newline c = (if c = CHR 0x0A \<or> c = CHR 0x0D then CHR '' '' else c)"

lemma snippet_of_ascii:
  assumes "list_all is_ascii body"
  shows "body_snippet body = map blank_newline (take 200 body) @ (if length body \<le> 200 then [] else ''...'')"
proof -
  have "concat (map newline_char (map (\<lambda>c. [c]) cs)) = map blank_newline cs" for cs
    by (induction cs) (simp_all add: newline_char_def blank_newline_def)
  then show ?thesis by (simp add: body_snippet_def utf8_chars_ascii [OF assms] take_map drop_map)
qed

lemma snippet_of_xs:
  "body_snippet (replicate n (CHR ''X'')) = replicate (min n 200) (CHR ''X'') @ (if n \<le> 200 then [] else ''...'')"
  by (subst snippet_of_ascii) (simp_all add: list_all_iff is_ascii_def blank_newline_def)

lemma snippet_tests_pass:
  "should_truncate_text_to_max_length_and_add_ellipsis"
  "should_remove_special_ch"
  "should_not_change_the_short_text"
  "should_handle_exactly_limit_length_without_ellipsis"
proof -
  show "should_truncate_text_to_max_length_and_add_ellipsis"
    by (simp add: should_truncate_text_to_max_length_and_add_ellipsis_def snippet_of_xs suffix_def)
  show "should_remove_special_ch"
    by (simp add: should_remove_special_ch_def snippet_of_ascii is_ascii_def blank_newline_def)
  show "should_not_change_the_short_text"
    by (simp add: should_not_change_the_short_text_def snippet_of_ascii is_ascii_def blank_newline_def)
  have "\<not> suffix ''...'' (replicate 200 (CHR ''X''))"
    by (auto dest!: set_mono_suffix)
  then show "should_handle_exactly_limit_length_without_ellipsis"
    by (simp add: should_handle_exactly_limit_length_without_ellipsis_def snippet_of_xs)
qed

section \<open>The retry-after header\<close>

text \<open>The third argument of \<open>parse_retry_after_at\<close> is the header, if the map holds one.\<close>

definition should_return_none_if_there_no_title :: "(string \<Rightarrow> i64 option) \<Rightarrow> i64 \<Rightarrow> bool" where
  "should_return_none_if_there_no_title rfc2822 now = (parse_retry_after_at Some rfc2822 None now = None)"

definition should_return_some_duration_when_valid_integer_seconds :: "(string \<Rightarrow> i64 option) \<Rightarrow> i64 \<Rightarrow> bool" where
  "should_return_some_duration_when_valid_integer_seconds rfc2822 now =
     (let result = parse_retry_after_at Some rfc2822 (Some ''20'') now
      in result \<noteq> None \<and> result = Some (from_secs 20))"

definition should_return_duration_when_header_contains_http_date_format :: "(string \<Rightarrow> i64 option) \<Rightarrow> bool" where
  "should_return_duration_when_header_contains_http_date_format rfc2822 =
     (case rfc2822 ''Sat, 10 Apr 2027 09:20:10 GMT'' of
        None \<Rightarrow> False
      | Some now_ts \<Rightarrow>
          parse_retry_after_at Some rfc2822 (Some ''Sat, 10 Apr 2027 09:20:20 GMT'') now_ts = Some (from_secs 10))"

definition should_return_none_when_header_contains_garbage_text :: "(string \<Rightarrow> i64 option) \<Rightarrow> i64 \<Rightarrow> bool" where
  "should_return_none_when_header_contains_garbage_text rfc2822 now =
     (parse_retry_after_at Some rfc2822 (Some ''Aorstwymt 66654'') now = None)"

definition should_return_none_when_header_is_empty_string :: "(string \<Rightarrow> i64 option) \<Rightarrow> i64 \<Rightarrow> bool" where
  "should_return_none_when_header_is_empty_string rfc2822 now =
     (parse_retry_after_at Some rfc2822 (Some '''') now = None)"

definition should_return_none_when_header_contains_negative_number :: "(string \<Rightarrow> i64 option) \<Rightarrow> i64 \<Rightarrow> bool" where
  "should_return_none_when_header_contains_negative_number rfc2822 now =
     (parse_retry_after_at Some rfc2822 (Some ''-55'') now = None)"

definition should_return_none_when_seconds_exceed_u64_max :: "(string \<Rightarrow> i64 option) \<Rightarrow> i64 \<Rightarrow> bool" where
  "should_return_none_when_seconds_exceed_u64_max rfc2822 now =
     (parse_retry_after_at Some rfc2822 (Some ''9999999999999999999999999999'') now = None)"

definition should_return_none_when_header_contains_float_number :: "(string \<Rightarrow> i64 option) \<Rightarrow> i64 \<Rightarrow> bool" where
  "should_return_none_when_header_contains_float_number rfc2822 now =
     (parse_retry_after_at Some rfc2822 (Some ''24.46'') now = None)"

lemmas header_tests =
  should_return_none_if_there_no_title_def
  should_return_some_duration_when_valid_integer_seconds_def
  should_return_none_when_header_contains_garbage_text_def
  should_return_none_when_header_is_empty_string_def
  should_return_none_when_header_contains_negative_number_def
  should_return_none_when_seconds_exceed_u64_max_def
  should_return_none_when_header_contains_float_number_def

text \<open>A text that is no date is left to the parser of numbers.\<close>

lemma not_a_date:
  assumes "rfc2822 (str_trim value) = None"
  shows "parse_retry_after_at Some rfc2822 (Some value) now = map_option from_secs (parse_unsigned 64 (str_trim value))"
  by (cases "parse_unsigned 64 (str_trim value)") (simp_all add: parse_retry_after_at_def assms Let_def)

lemma header_tests_pass:
  assumes "list_all (\<lambda>value. rfc2822 value = None)
      [''20'', ''Aorstwymt 66654'', '''', ''-55'', ''9999999999999999999999999999'', ''24.46'']"
  shows "should_return_none_if_there_no_title rfc2822 now"
    and "should_return_some_duration_when_valid_integer_seconds rfc2822 now"
    and "should_return_none_when_header_contains_garbage_text rfc2822 now"
    and "should_return_none_when_header_is_empty_string rfc2822 now"
    and "should_return_none_when_header_contains_negative_number rfc2822 now"
    and "should_return_none_when_seconds_exceed_u64_max rfc2822 now"
    and "should_return_none_when_header_contains_float_number rfc2822 now"
  using assms
  by (simp_all add: header_tests parse_retry_after_at_def str_trim_def is_ascii_space_def parse_unsigned_def
      parse_digits_def digit_val_def Let_def)

text \<open>The two dates of the test, in seconds.\<close>

lemma date_test_passes:
  assumes "rfc2822 ''Sat, 10 Apr 2027 09:20:10 GMT'' = Some 1807348810"
    and "rfc2822 ''Sat, 10 Apr 2027 09:20:20 GMT'' = Some 1807348820"
  shows "should_return_duration_when_header_contains_http_date_format rfc2822"
  by (simp add: should_return_duration_when_header_contains_http_date_format_def assms parse_retry_after_at_def
      str_trim_def is_ascii_space_def)

end
