(* ===== verification/FetchComplete.thy ===== *)
theory FetchComplete
  imports IndexerProps
begin

text \<open>
  What paging achieves against a service that does what its documentation says: the signatures of an
  address form one list, newest first, and a call returns the next thousand after its cursor. The
  clock may show any of a set of times while the pages are read.
\<close>

section \<open>The service\<close>

fun after_cursor :: "string option \<Rightarrow> signature_info list \<Rightarrow> signature_info list" where
  "after_cursor None sigs = sigs"
| "after_cursor (Some c) sigs = tl (dropWhile (\<lambda>x. sig_signature x \<noteq> c) sigs)"

text \<open>The documented behaviour of \<open>getSignaturesForAddress\<close>: a reply with a result holds the next thousand
  signatures after the cursor of the request.\<close>

definition honest_service :: "'w env \<Rightarrow> helius_api \<Rightarrow> string \<Rightarrow> signature_info list \<Rightarrow> bool" where
  "honest_service E api a sigs \<longleftrightarrow>
     (\<forall>cur s response s' result. send_rpc_request E api (signatures_body a cur) s = Some (Ok response, s') \<longrightarrow>
        env_decode_signatures E (rh_body_text response) = Ok \<lparr>env_result = Value result, env_error = None\<rparr> \<longrightarrow>
        result = take 1000 (after_cursor cur sigs))"

definition clock_shows :: "'w env \<Rightarrow> i64 set \<Rightarrow> bool" where
  "clock_shows E ticks \<longleftrightarrow> (\<forall>w. fst (env_utc_secs E w) \<in> ticks)"

definition honest_pages ::
    "'w env \<Rightarrow> helius_api \<Rightarrow> string \<Rightarrow> i16 \<Rightarrow> signature_info list \<Rightarrow> i64 set \<Rightarrow> bool" where
  "honest_pages E api a h sigs ticks \<longleftrightarrow>
     (\<forall>cur s page s'. get_signatures E api a cur h s = Some (Ok page, s') \<longrightarrow>
        (\<exists>now \<in> ticks. page = page_of (take 1000 (after_cursor cur sigs)) h now))"

lemma honest_service_pages:
  assumes "honest_service E api a sigs" and "clock_shows E ticks"
  shows "honest_pages E api a h sigs ticks"
  unfolding honest_pages_def
proof (intro allI impI)
  fix cur s page s'
  assume "get_signatures E api a cur h s = Some (Ok page, s')"
  then obtain response s0 s1 result w where
    "send_rpc_request E api (signatures_body a cur) s0 = Some (Ok response, s1)"
    "env_decode_signatures E (rh_body_text response) = Ok \<lparr>env_result = Value result, env_error = None\<rparr>"
    and page: "page = page_of result h (fst (env_utc_secs E w))"
    using signatures_loop_reply [OF get_signatures_Some [of E api a cur h s "(Ok page, s')"]] by blast
  then have "result = take 1000 (after_cursor cur sigs)" using assms(1) unfolding honest_service_def by blast
  with page assms(2) show "\<exists>now \<in> ticks. page = page_of (take 1000 (after_cursor cur sigs)) h now"
    unfolding clock_shows_def by blast
qed

text \<open>A signature that is in the table under the address, and one that is inside the window at every
  time the clock showed.\<close>

definition listed :: "string \<Rightarrow> db \<Rightarrow> signature_info \<Rightarrow> bool" where
  "listed a d x \<longleftrightarrow> (a, sig_signature x) \<in> sig_key ` set (signatures d)"

definition always_in_window :: "i16 \<Rightarrow> i64 set \<Rightarrow> signature_info \<Rightarrow> bool" where
  "always_in_window h ticks x \<longleftrightarrow> (\<forall>now \<in> ticks. in_window (cutoff_of h now) x)"

section \<open>Facts\<close>

lemma listed_grows: "listed a d x \<Longrightarrow> db_grows d d' \<Longrightarrow> listed a d' x"
  by (auto simp: listed_def db_grows_def)

lemma write_lists:
  assumes "write_signatures E resp a s = (Ok n, s')" and "x \<in> set (resp_result resp)"
  shows "listed a (sy_db s') x"
proof -
  have "resp_result resp \<noteq> []" using assms(2) by auto
  with assms(1) have "run_db E (write_signatures_stmt (resp_result resp) a) s = (Ok n, s')"
    by (simp add: write_signatures_def run_db_bound_def split: if_splits)
  then obtain d t where "write_signatures_stmt (resp_result resp) a t d = (Ok n, sy_db s')" by (rule run_db_Ok)
  then have "sy_db s' = snd (write_signatures_stmt (resp_result resp) a t d)" by simp
  moreover have "sig_key (new_sig_row a x) = (a, sig_signature x)" by (simp add: sig_key_def new_sig_row_def)
  moreover have "sig_key (new_sig_row a x) \<in> sig_key ` set (map (new_sig_row a) (resp_result resp))"
    using assms(2) by simp
  ultimately show ?thesis by (simp only: listed_def write_signatures_rows sigtab.ins_keys Un_iff) simp
qed

lemma newest_first_append:
  "newest_first (xs @ ys) \<Longrightarrow> newest_first xs \<and> newest_first ys"
  by (induction xs) (auto split: option.splits)

lemma newest_first_old:
  assumes "newest_first (xs @ ys)" and "x \<in> set xs" and "\<not> not_old c x" and "y \<in> set ys"
  shows "\<not> in_window c y"
  using assms
proof (induction xs)
  case (Cons z xs)
  then show ?case
    by (fastforce simp: not_old_def in_window_def list_all_iff split: option.splits)
qed simp

lemma after_last:
  assumes "distinct (map sig_signature (xs @ ys @ zs))" and "ys \<noteq> []"
  shows "after_cursor (Some (sig_signature (last ys))) (xs @ ys @ zs) = zs"
proof -
  have split: "xs @ ys @ zs = (xs @ butlast ys) @ last ys # zs" using assms(2) by simp
  with assms(1) have "\<forall>x \<in> set (xs @ butlast ys). sig_signature x \<noteq> sig_signature (last ys)"
    by (auto simp: distinct_map image_iff simp del: append_butlast_last_id)
  then have "dropWhile (\<lambda>x. sig_signature x \<noteq> sig_signature (last ys)) ((xs @ butlast ys) @ last ys # zs) = last ys # zs"
    by (subst dropWhile_append2) simp_all
  then show ?thesis by (simp only: split after_cursor.simps) simp
qed

text \<open>What one page that was written adds.\<close>

lemma page_listed:
  assumes "newest_first (result @ rest)" and "sp_response page = sp_response (page_of result h now)"
    and "write_signatures E (sp_response page) a s = (Ok n, s')" and "x \<in> set result"
    and "in_window (cutoff_of h now) x"
  shows "listed a (sy_db s') x"
proof -
  have "newest_first result" using newest_first_append [OF assms(1)] by blast
  then have "resp_result (sp_response page) = filter (in_window (cutoff_of h now)) result"
    by (simp add: assms(2) take_recent_eq Let_def newest_first_filter)
  with assms(4,5) have "x \<in> set (resp_result (sp_response page))" by simp
  with write_lists [OF assms(3)] show ?thesis .
qed

text \<open>The state of the loop: the part of the list that was paged through is stored as far as it was in the
  window, and the count is covered by stored signatures.\<close>

definition paged :: "string \<Rightarrow> i16 \<Rightarrow> i64 set \<Rightarrow> signature_info list \<Rightarrow> usize \<Rightarrow> db \<Rightarrow> bool" where
  "paged a h ticks done_sigs seen d \<longleftrightarrow>
     (\<forall>x \<in> set done_sigs. always_in_window h ticks x \<longrightarrow> listed a d x)
     \<and> seen \<le> card {x \<in> set done_sigs. listed a d x}"

lemma paged_step:
  assumes "paged a h ticks xs seen d" and "db_grows d d'" and "distinct (map sig_signature (xs @ result @ rest))"
    and "newest_first (result @ rest)" and "now \<in> ticks"
    and "\<And>x. x \<in> set result \<Longrightarrow> in_window (cutoff_of h now) x \<Longrightarrow> listed a d' x"
    and "new = length (filter (in_window (cutoff_of h now)) result)"
  shows "paged a h ticks (xs @ result) (seen + new) d'"
proof -
  let ?old = "{x \<in> set xs. listed a d' x}" and ?new = "set (filter (in_window (cutoff_of h now)) result)"
  have "seen \<le> card {x \<in> set xs. listed a d x}" using assms(1) by (simp add: paged_def)
  also have "\<dots> \<le> card ?old" using listed_grows [OF _ assms(2)] by (intro card_mono) auto
  finally have old: "seen \<le> card ?old" .
  have "distinct (filter (in_window (cutoff_of h now)) result)" using assms(3) by (simp add: distinct_map)
  then have new: "card ?new = new" unfolding assms(7) by (rule distinct_card)
  have "?old \<inter> ?new = {}" using assms(3) by (auto simp: distinct_map)
  then have "card (?old \<union> ?new) = card ?old + card ?new" by (intro card_Un_disjoint) auto
  moreover have "?old \<union> ?new \<subseteq> {x \<in> set (xs @ result). listed a d' x}" using assms(6) by auto
  then have "card (?old \<union> ?new) \<le> card {x \<in> set (xs @ result). listed a d' x}" by (intro card_mono) auto
  ultimately have "seen + new \<le> card {x \<in> set (xs @ result). listed a d' x}" using old new by simp
  moreover have "listed a d' x" if "x \<in> set (xs @ result)" "always_in_window h ticks x" for x
    using that assms(1,5,6) listed_grows [OF _ assms(2)] by (auto simp: paged_def always_in_window_def)
  ultimately show ?thesis by (simp add: paged_def)
qed

text \<open>When the loop stops for another reason than the limit, nothing of the window is left.\<close>

lemma page_exhausts:
  assumes "newest_first (result @ rest)" and "now \<in> ticks" and "result = take 1000 (result @ rest)"
    and "rs_reached_cutoff (take_recent_signatures_at result h now) \<or> result = [] \<or> length result < 1000"
    and "x \<in> set rest"
  shows "\<not> always_in_window h ticks x"
proof -
  have "\<not> length result < 1000"
  proof
    assume small: "length result < 1000"
    have "length result = length (take 1000 (result @ rest))" by (rule arg_cong [OF assms(3)])
    then have "length result = min 1000 (length result + length rest)" by (simp only: length_take length_append min.commute)
    with small have "length rest = 0" by arith
    with assms(5) show False by simp
  qed
  then obtain y where "y \<in> set result" "\<not> not_old (cutoff_of h now) y"
    using assms(4) by (auto simp: take_recent_eq Let_def takeWhile_all_iff)
  with newest_first_old [OF assms(1)] assms(2,5) show ?thesis by (auto simp: always_in_window_def)
qed

definition fetch_done :: "string \<Rightarrow> usize \<Rightarrow> i16 \<Rightarrow> i64 set \<Rightarrow> signature_info list \<Rightarrow> db \<Rightarrow> bool" where
  "fetch_done a tx_limit h ticks sigs d \<longleftrightarrow>
     (\<forall>x \<in> set sigs. always_in_window h ticks x \<longrightarrow> listed a d x)
     \<or> tx_limit \<le> card {x \<in> set sigs. listed a d x}"

lemma stop_done:
  assumes "paged a h ticks xs seen d" and "sigs = xs @ rest"
    and "tx_limit \<le> seen \<or> (\<forall>x \<in> set rest. \<not> always_in_window h ticks x)"
  shows "fetch_done a tx_limit h ticks sigs d"
proof (cases "tx_limit \<le> seen")
  case True
  have "card {x \<in> set xs. listed a d x} \<le> card {x \<in> set sigs. listed a d x}"
    using assms(2) by (intro card_mono) auto
  with True assms(1) show ?thesis by (simp add: fetch_done_def paged_def)
next
  case False
  with assms show ?thesis by (auto simp: fetch_done_def paged_def)
qed

lemma fetch_loop_complete:
  assumes "others_grow E" and "honest_pages E api a h sigs ticks" and "newest_first sigs"
    and "distinct (map sig_signature sigs)"
    and "fetch_signatures_loop E api a mx h cur seen s = Some (Ok (), s')"
    and "sigs = xs @ after_cursor cur sigs" and "paged a h ticks xs seen (sy_db s)"
  shows "fetch_done a mx h ticks sigs (sy_db s')"
proof -
  let ?G = "\<lambda>E' api' a' mx h' cur seen s x. E' = E \<longrightarrow> api' = api \<longrightarrow> a' = a \<longrightarrow> h' = h \<longrightarrow>
      (\<forall>xs. sigs = xs @ after_cursor cur sigs \<longrightarrow> paged a h ticks xs seen (sy_db s) \<longrightarrow> fst x = Ok () \<longrightarrow>
         fetch_done a mx h ticks sigs (sy_db (snd x)))"
  have "?G E' api' a' mx h' cur seen s x" if "fetch_signatures_loop E' api' a' mx h' cur seen s = Some x"
    for E' api' a' mx h' cur seen s x
  proof (rule fetch_signatures_loop.raw_induct [where P = ?G, OF _ that], intro impI allI, goal_cases)
    case (1 loop E' api' a' mx h' cur seen s x xs)
    let ?result = "take 1000 (after_cursor cur sigs)" and ?rest = "drop 1000 (after_cursor cur sigs)"
    obtain q s1 where q: "get_signatures E api a cur h s = Some (q, s1)"
      using 1(2-6) by (auto simp: bind_eq_Some_conv)
    then obtain page where page: "q = Ok page" using 1(2-6,9) by (cases q) auto
    obtain w s2 where w: "write_signatures E (sp_response page) a s1 = (w, s2)" by fastforce
    obtain n where n: "w = Ok n" using 1(2-6,9) q page w by (cases w) (auto simp: Let_def)
    obtain now where now: "now \<in> ticks" "page = page_of ?result h now"
      using assms(2) q page unfolding honest_pages_def by blast
    have sigs: "sigs = xs @ ?result @ ?rest" using 1(7) by simp
    then have first: "newest_first (?result @ ?rest)" using newest_first_append assms(3) by metis
    have dist: "distinct (map sig_signature (xs @ ?result @ ?rest))" using assms(4) sigs by simp
    have new: "length (resp_result (sp_response page)) = length (filter (in_window (cutoff_of h now)) ?result)"
      using newest_first_append [OF first] by (simp add: now(2) take_recent_eq Let_def newest_first_filter)
    have lists: "\<And>x. x \<in> set ?result \<Longrightarrow> in_window (cutoff_of h now) x \<Longrightarrow> listed a (sy_db s2) x"
      using page_listed [OF first _ w [unfolded n], of h now] now(2) by simp
    have "db_grows (sy_db s1) (sy_db (snd (write_signatures E (sp_response page) a s1)))"
      by (rule facade_grows(5) [OF assms(1)])
    then have grow: "db_grows (sy_db s) (sy_db s2)" using w get_signatures_db [OF q] by simp
    let ?seen = "seen + length (resp_result (sp_response page))"
    have paged: "paged a h ticks (xs @ ?result) ?seen (sy_db s2)"
      by (rule paged_step [OF 1(8) grow dist first now(1) lists new])
    let ?stop = "sp_reached_cutoff page \<or> sp_last_signature page = None \<or> sp_raw_count page < 1000"
    show ?case
    proof (cases "?stop \<or> mx \<le> ?seen")
      case True
      with 1(2-6) q page w n have "snd x = s2" by (auto simp: Let_def)
      moreover have "mx \<le> ?seen \<or> (\<forall>x \<in> set ?rest. \<not> always_in_window h ticks x)"
      proof (cases "mx \<le> ?seen")
        case False
        with True have "rs_reached_cutoff (take_recent_signatures_at ?result h now) \<or> ?result = [] \<or> length ?result < 1000"
          by (auto simp: now(2) split: if_splits)
        then show ?thesis using page_exhausts [OF first now(1), of] by simp
      qed simp
      moreover have "sigs = (xs @ ?result) @ ?rest" using sigs by simp
      ultimately show ?thesis using stop_done [OF paged] by metis
    next
      case False
      then have ne: "?result \<noteq> []" "sp_last_signature page = Some (sig_signature (last ?result))"
        by (auto simp: now(2) split: if_splits)
      have "loop E api a mx h (sp_last_signature page) ?seen s2 = Some x"
        using 1(2-6) q page w n False by (auto simp: Let_def)
      moreover have "after_cursor (sp_last_signature page) sigs = ?rest"
        unfolding ne(2) by (subst (2) sigs) (rule after_last [OF dist ne(1)])
      then have "sigs = (xs @ ?result) @ after_cursor (sp_last_signature page) sigs" using sigs by simp
      ultimately show ?thesis using 1(1) paged 1(9) by blast
    qed
  qed
  from this [OF assms(5)] assms(6,7) show ?thesis by simp
qed

section \<open>Properties\<close>

text \<open>C12: paging is complete: against a service that lists the signatures of the address newest first,
  when fetching succeeds every signature that was inside the window at every time the clock showed is
  in the table, or the limit of the job is reached by signatures that are, whatever other tasks write
  as long as they delete nothing.\<close>

theorem fetch_complete:
  assumes "others_grow E" and "honest_service E api address sigs" and "clock_shows E ticks"
    and "newest_first sigs" and "distinct (map sig_signature sigs)"
    and "fetch_signatures E api address tx_limit hours s = Some (Ok (), s')"
  shows "(\<forall>x \<in> set sigs. always_in_window hours ticks x \<longrightarrow> listed address (sy_db s') x)
     \<or> tx_limit \<le> card {x \<in> set sigs. listed address (sy_db s') x}"
proof -
  from assms(6) have "fetch_signatures_loop E api address tx_limit hours None 0 s = Some (Ok (), s')"
    by (auto simp: fetch_signatures_def bind_eq_Some_conv)
  moreover have "paged address hours ticks [] 0 (sy_db s)" by (simp add: paged_def)
  moreover have "sigs = [] @ after_cursor None sigs" by (simp only: after_cursor.simps append_Nil)
  ultimately have "fetch_done address tx_limit hours ticks sigs (sy_db s')"
    by (intro fetch_loop_complete [OF assms(1) honest_service_pages [OF assms(2,3)] assms(4,5)])
  then show ?thesis by (simp add: fetch_done_def)
qed

text \<open>A service whose address has one signature, and answers by the cursor of the request.\<close>

definition cursor_env :: "json env" where
  "cursor_env = \<lparr>
     env_elapse = (\<lambda>w. (0, w)), env_utc_secs = (\<lambda>w. (3600, w)), env_sample = (\<lambda>w. (\<lambda>_. Finite 0, w)),
     env_others_limiter = Pair, env_acquire = (\<lambda>n w. Some (Ok (), w)),
     env_send = (\<lambda>_ body w. (Ok \<lparr>hh_status = 200, hh_retry_after = None\<rparr>, body)),
     env_text = (\<lambda>w. (Ok (if w = signatures_body ''owner'' None then ''one'' else ''empty''), w)),
     env_header_text = Some, env_rfc2822 = (\<lambda>_. None), env_show_status = show_nat,
     env_decode_signatures = script_signatures, env_decode_envelope = script_envelope,
     env_decode_transaction = (\<lambda>_. Err ''no transactions''),
     env_pow_f64 = (\<lambda>x _. x), env_from_f64 = (\<lambda>_. None),
     env_db_turn = (\<lambda>d w. (d, script_turn, w)), env_bind_limit = 65535,
     env_client_info = True, env_client_warn = True\<rparr>"

definition cursor_sig :: signature_info where
  "cursor_sig = \<lparr>sig_block_time = Some 1800, sig_signature = ''s1''\<rparr>"

lemma cursor_env_sel [simp]:
  "env_utc_secs cursor_env = (\<lambda>w. (3600, w))" "env_others_limiter cursor_env = Pair"
  "env_send cursor_env e body w = (Ok \<lparr>hh_status = 200, hh_retry_after = None\<rparr>, body)"
  "env_text cursor_env w = (Ok (if w = signatures_body ''owner'' None then ''one'' else ''empty''), w)"
  "env_decode_signatures cursor_env = script_signatures" "env_elapse cursor_env w = (0, w)"
  "env_db_turn cursor_env d w = (d, script_turn, w)" "env_acquire cursor_env n w = Some (Ok (), w)"
  "env_bind_limit cursor_env = 65535"
  by (simp_all add: cursor_env_def)

lemma cursor_wait: "lm_until (sy_limiter s) = None \<Longrightarrow> wait_for_rate_limit_cooldown cursor_env s = Some s"
  by (subst wait_for_rate_limit_cooldown.simps) (simp add: limiter_turn_def)

lemma cursor_reply:
  assumes "send_rpc_request cursor_env api body s = Some (Ok response, s')"
  shows "rh_body_text response = (if body = signatures_body ''owner'' None then ''one'' else ''empty'')"
proof -
  obtain permit s1 where p: "acquire_request_slot cursor_env api s = Some (permit, s1)"
    using assms by (auto simp: send_rpc_request_def bind_eq_Some_conv)
  with assms show ?thesis
    by (cases permit) (auto simp: send_rpc_request_def utc_now_def elapse_def)
qed

lemma cursor_honest: "honest_service cursor_env api ''owner'' [cursor_sig]"
  unfolding honest_service_def
proof (intro allI impI)
  fix cur and s :: "json sys" and response s' result
  assume "send_rpc_request cursor_env api (signatures_body ''owner'' cur) s = Some (Ok response, s')"
    "env_decode_signatures cursor_env (rh_body_text response) = Ok \<lparr>env_result = Value result, env_error = None\<rparr>"
  then show "result = take 1000 (after_cursor cur [cursor_sig])"
    using cursor_reply [of api "signatures_body ''owner'' cur" s response s']
    by (cases cur) (auto simp: script_signatures_def signatures_body_def cursor_sig_def split: if_splits)
qed

theorem fetch_complete_witness:
  "\<exists>s s'. fetch_signatures cursor_env script_api ''owner'' 100 1 s = Some (Ok (), s')
     \<and> signatures (sy_db s) = [] \<and> listed ''owner'' (sy_db s') cursor_sig"
proof -
  let ?s = "\<lparr>sy_world = JNull, sy_clock = 0, sy_limiter = \<lparr>lm_backoff = new_backoff (Finite 500) (Finite 10000) (Finite 2),
     lm_until = None, lm_last = None\<rparr>, sy_db = (small_db ''indexing'' True)\<lparr>signatures := []\<rparr>\<rparr>"
  have grow: "others_grow cursor_env" by (simp add: others_grow_def)
  have ticks: "clock_shows cursor_env {3600}" by (simp add: clock_shows_def)
  obtain x where x: "get_signatures cursor_env script_api ''owner'' None 1 ?s = Some (Ok (page_of [cursor_sig] 1 3600), x)"
    by (simp add: get_signatures_def script_attempts send_rpc_request_def acquire_request_slot_def cursor_wait elapse_def
        utc_now_def script_signatures_def reset_rate_limit_backoff_if_idle_def limiter_turn_def Let_def cursor_sig_def)
  have turn: "t_fault script_turn = None" by (simp add: script_turn_def)
  have page: "rs_signatures (take_recent_signatures_at [cursor_sig] 1 3600) = [cursor_sig]"
    by (simp add: take_recent_eq Let_def not_old_def has_time_def cursor_sig_def cutoff_of_def wrap_i64_def)
  obtain n s2 where w: "write_signatures cursor_env (sp_response (page_of [cursor_sig] 1 3600)) ''owner'' x = (Ok n, s2)"
    by (simp add: write_signatures_def run_db_bound_def run_db_def page turn case_prod_beta write_signatures_rows(2))
  have "\<exists>s'. fetch_signatures_loop cursor_env script_api ''owner'' 100 1 None 0 ?s = Some (Ok (), s')"
    by (subst fetch_signatures_loop.simps) (simp add: x w)
  then obtain s' where s': "fetch_signatures cursor_env script_api ''owner'' 100 1 ?s = Some (Ok (), s')"
    by (auto simp: fetch_signatures_def)
  have window: "always_in_window 1 {3600} cursor_sig"
    by (simp add: always_in_window_def in_window_def cursor_sig_def cutoff_of_def wrap_i64_def)
  have "card {x \<in> set [cursor_sig]. listed ''owner'' (sy_db s') x} \<le> card {cursor_sig}" by (rule card_mono) auto
  then have few: "\<not> 100 \<le> card {x \<in> set [cursor_sig]. listed ''owner'' (sy_db s') x}" by simp
  have sigs: "newest_first [cursor_sig]" "distinct (map sig_signature [cursor_sig])" by (simp_all add: cursor_sig_def)
  from fetch_complete [OF grow cursor_honest ticks sigs s'] window few
  have "listed ''owner'' (sy_db s') cursor_sig" by simp
  with s' show ?thesis by (intro exI [of _ ?s] exI [of _ s']) simp
qed

end
