(* ===== verification/Fixtures.thy ===== *)
theory Fixtures
  imports RpcTypes
begin

text \<open>
  The developer tool of \<open>src/bin/fixture_updater.rs\<close>: it asks the live service for the replies the tests
  are run on and writes each to its file. The environment variable, the HTTP exchange and the file
  system are arguments; the first error ends the run.
\<close>

record 'w fixture_env =
  fx_api_key :: "string result"
  fx_post :: "string \<Rightarrow> json \<Rightarrow> 'w \<Rightarrow> string result \<times> 'w"
  fx_write :: "string \<Rightarrow> string \<Rightarrow> 'w \<Rightarrow> unit result \<times> 'w"

definition fixture_helius_url :: "string \<Rightarrow> string" where
  "fixture_helius_url api = ''https://mainnet.helius-rpc.com/?api-key='' @ api"

definition signatures_address :: string where
  "signatures_address = ''4UCSDDYGdcMUjmNJSTRRAUN6ev9H8BQ9z4hNbZQ57kvb''"

definition transaction_signature :: string where
  "transaction_signature =
     ''4TXLkNSE8Rpv9VuqJ5aYUnd7JvvikoEqDB8M9oumN43n4Ma2Deyg34dkqVTuYCbVFzLwzkUPdM6nd3jNc7Fua1Sr''"

definition additional_transaction_fixtures :: "(string \<times> string) list" where
  "additional_transaction_fixtures =
     [(''tests/fixtures/helius/transactions/success_additional_1.json'',
       ''4NTd1BBKhVgymneSQjNpkJvb2hDZanXEYmwSFsoUFBJw1E6xSnu4WnZ6Hcq6yZWGMDTR7tqPqqsoMEGaPrBfKpD1''),
      (''tests/fixtures/helius/transactions/success_additional_2.json'',
       ''5WZp7EV4wYrTGtjiU2ABiuYog6rYhZXHWErtNVkiCWkmKG2UPWUVqriwTHAftvW2sZY6v6JF3rCr7utMeZRos2yC''),
      (''tests/fixtures/helius/transactions/success_additional_3.json'',
       ''512aZ8LYJbBH6uKvyLokeFMBrcuPLCDQqWFhxyRh6jvyaYnpZs4BTNPvyWDok4t8o7mNfUFXqFHWZnzchGcMTCed''),
      (''tests/fixtures/helius/transactions/success_additional_4.json'',
       ''TQP1wGQQQqz1DMPzEdkEskCpwQ2RMSqoGJtV9ycQfkvtrn1tftAKcgoHE3Tz9WGHNmBfyJGUSVg5BJqkwx9nAXG''),
      (''tests/fixtures/helius/transactions/success_additional_5.json'',
       ''28KsSTgMBbz2hL2fkaGMLbqYPFsHatdLeur4PM6poQZwVUPMA54xeD1whSfgeJbPmiTj9w3SW3LEQQEfz5DpAuno'')]"

section \<open>The requests\<close>

definition fixture_request :: "string \<Rightarrow> json list \<Rightarrow> json" where
  "fixture_request rpc_method params =
     JObject [(''jsonrpc'', JString ''2.0''), (''id'', JString ''1''), (''method'', JString rpc_method),
       (''params'', JArray params)]"

definition signatures_success_body :: json where
  "signatures_success_body = fixture_request ''getSignaturesForAddress''
     [JString signatures_address, JObject [(''max_supported_transaction_version'', JNumber ''0'')]]"

definition signatures_error_body :: json where
  "signatures_error_body = fixture_request ''getSignaturesForAddress''
     [JNumber ''123'', JObject [(''before'', JNumber ''456''), (''limit'', JString ''bad'')]]"

definition transaction_success_body :: "string \<Rightarrow> json" where
  "transaction_success_body signature = fixture_request ''getTransaction''
     [JString signature, JObject [(''encoding'', JString ''jsonParsed''), (''maxSupportedTransactionVersion'', JNumber ''0'')]]"

definition transaction_error_body :: json where
  "transaction_error_body = fixture_request ''getTransaction''
     [JNumber ''123'', JObject [(''encoding'', JBool False), (''maxSupportedTransactionVersion'', JString ''bad'')]]"

section \<open>The steps\<close>

text \<open>The common body of the four functions that save one reply.\<close>

definition save_reply :: "'w fixture_env \<Rightarrow> string \<Rightarrow> json \<Rightarrow> 'w \<Rightarrow> unit result \<times> 'w" where
  "save_reply F path body w =
     (case fx_api_key F of
        Err e \<Rightarrow> (Err e, w)
      | Ok api \<Rightarrow>
          (case fx_post F (fixture_helius_url api) body w of
             (Err e, w) \<Rightarrow> (Err e, w)
           | (Ok response, w) \<Rightarrow> fx_write F path response w))"

definition save_signatures_success_fixture :: "'w fixture_env \<Rightarrow> 'w \<Rightarrow> unit result \<times> 'w" where
  "save_signatures_success_fixture F =
     save_reply F ''tests/fixtures/helius/signatures/success.json'' signatures_success_body"

definition save_signatures_generic_error_fixture :: "'w fixture_env \<Rightarrow> 'w \<Rightarrow> unit result \<times> 'w" where
  "save_signatures_generic_error_fixture F =
     save_reply F ''tests/fixtures/helius/signatures/rpc_error_generic.json'' signatures_error_body"

definition save_transaction_success_fixture_by_signature ::
    "'w fixture_env \<Rightarrow> string \<Rightarrow> string \<Rightarrow> 'w \<Rightarrow> unit result \<times> 'w" where
  "save_transaction_success_fixture_by_signature F path signature =
     save_reply F path (transaction_success_body signature)"

definition save_transaction_success_fixture :: "'w fixture_env \<Rightarrow> 'w \<Rightarrow> unit result \<times> 'w" where
  "save_transaction_success_fixture F =
     save_transaction_success_fixture_by_signature F ''tests/fixtures/helius/transactions/success.json''
       transaction_signature"

fun save_additional :: "'w fixture_env \<Rightarrow> (string \<times> string) list \<Rightarrow> 'w \<Rightarrow> unit result \<times> 'w" where
  "save_additional F [] w = (Ok (), w)"
| "save_additional F ((path, signature) # rest) w =
     (case save_transaction_success_fixture_by_signature F path signature w of
        (Err e, w) \<Rightarrow> (Err e, w)
      | (Ok _, w) \<Rightarrow> save_additional F rest w)"

definition save_transaction_generic_error_fixture :: "'w fixture_env \<Rightarrow> 'w \<Rightarrow> unit result \<times> 'w" where
  "save_transaction_generic_error_fixture F =
     save_reply F ''tests/fixtures/helius/transactions/rpc_error_generic.json'' transaction_error_body"

definition fixture_main :: "'w fixture_env \<Rightarrow> 'w \<Rightarrow> unit result \<times> 'w" where
  "fixture_main F w =
     (case save_signatures_success_fixture F w of (Err e, w) \<Rightarrow> (Err e, w) | (Ok _, w) \<Rightarrow>
      case save_signatures_generic_error_fixture F w of (Err e, w) \<Rightarrow> (Err e, w) | (Ok _, w) \<Rightarrow>
      case save_transaction_success_fixture F w of (Err e, w) \<Rightarrow> (Err e, w) | (Ok _, w) \<Rightarrow>
      case save_additional F additional_transaction_fixtures w of (Err e, w) \<Rightarrow> (Err e, w) | (Ok _, w) \<Rightarrow>
      save_transaction_generic_error_fixture F w)"

section \<open>One list of files\<close>

text \<open>The run is the plain left-to-right run over one list of files and requests, and no two of its steps
  write the same file.\<close>

fun save_all :: "'w fixture_env \<Rightarrow> (string \<times> json) list \<Rightarrow> 'w \<Rightarrow> unit result \<times> 'w" where
  "save_all F [] w = (Ok (), w)"
| "save_all F ((path, body) # rest) w =
     (case save_reply F path body w of (Err e, w) \<Rightarrow> (Err e, w) | (Ok _, w) \<Rightarrow> save_all F rest w)"

definition fixture_files :: "(string \<times> json) list" where
  "fixture_files =
     [(''tests/fixtures/helius/signatures/success.json'', signatures_success_body),
      (''tests/fixtures/helius/signatures/rpc_error_generic.json'', signatures_error_body),
      (''tests/fixtures/helius/transactions/success.json'', transaction_success_body transaction_signature)] @
     map (\<lambda>(path, sig). (path, transaction_success_body sig)) additional_transaction_fixtures @
     [(''tests/fixtures/helius/transactions/rpc_error_generic.json'', transaction_error_body)]"

lemma save_all_append:
  "save_all F (xs @ ys) w = (case save_all F xs w of (Err e, w) \<Rightarrow> (Err e, w) | (Ok _, w) \<Rightarrow> save_all F ys w)"
  by (induction xs arbitrary: w) (auto split: prod.split sum.split)

lemma save_additional_all:
  "save_additional F xs w = save_all F (map (\<lambda>(path, sig). (path, transaction_success_body sig)) xs) w"
  by (induction F xs w rule: save_additional.induct)
     (auto simp: save_transaction_success_fixture_by_signature_def split: prod.split sum.split)

lemma save_all_one: "save_all F [(path, body)] w = save_reply F path body w"
  by (auto split: prod.split sum.split)

lemma fixture_main_flat: "fixture_main F w = save_all F fixture_files w"
  unfolding fixture_files_def save_all_append
  by (auto simp: fixture_main_def save_signatures_success_fixture_def save_signatures_generic_error_fixture_def
        save_transaction_success_fixture_def save_transaction_generic_error_fixture_def
        save_transaction_success_fixture_by_signature_def save_additional_all save_all_one
        split: prod.split sum.split)

lemma fixture_files_distinct: "distinct (map fst fixture_files)"
  by (simp add: fixture_files_def additional_transaction_fixtures_def)

end
