(* ===== verification/Spec2Isabelle.thy ===== *)
theory Spec2Isabelle
  imports SystemProps HeldLeases RequestSlots Conformance FetchComplete Fixtures
begin

text \<open>
  A model of the on-chain event indexer and the theorems that make it correct.

  \<^bold>\<open>The program.\<close> The indexer (\<open>src/main.rs\<close>) runs an HTTP server and a number of workers against one
  PostgreSQL database and one JSON-RPC service. \<open>POST /analyze\<close> inserts a job into the table
  \<open>processing_data\<close>. A worker claims a pending job, pages through the signatures of its address,
  stores those inside the requested hours, leases them in batches of a hundred, fetches their
  transactions in chunks of ten, extracts the native and SPL transfer events, stores transactions and
  events, marks the signatures processed, and finally sets the job to \<open>ready\<close>, or to \<open>error\<close> when
  something failed or work is left. \<open>GET /jobs/{id}\<close> reports the progress.

  \<^bold>\<open>Theories and code.\<close>
    \<^item> \<open>Prelude\<close>: the machine types, the result type and the checked conversions of the Rust library.
      \<open>RustText\<close>: strings as UTF-8 bytes (a \<open>char\<close> is a byte), slices, trimming, decimal numbers.
      \<open>Float64\<close>: the IEEE doubles as far as the backoff uses them.
    \<^item> \<open>Logging\<close> is \<open>src/logging.rs\<close>; \<open>Backoff\<close> is \<open>src/backoff.rs\<close>, behind the interface \<open>delay_source\<close>.
    \<^item> \<open>RpcTypes\<close> and \<open>Transfers\<close> are \<open>src/requests/types.rs\<close>: the decoded transaction and
      \<open>calculate_token_transfer\<close> with its helpers; the properties are in \<open>TransferProps\<close>.
    \<^item> \<open>SignatureWindow\<close>, \<open>Limiter\<close>, \<open>Client\<close> and \<open>RequestSlots\<close> are \<open>src/requests/client.rs\<close>: the window
      filter of a page, the shared rate-limit state, the requests with their retry loops, and
      several requests at a time. \<open>ClientProps\<close> holds the properties of the client, \<open>Conformance\<close> the
      unit tests of the file.
    \<^item> \<open>Store\<close> is the schema of \<open>src/migrations\<close> (the columns the code uses, the keys, \<open>INSERT ... ON
      CONFLICT DO NOTHING\<close>, behind the interface \<open>upsert\<close>) and what a session contributes to a
      statement; \<open>JobsDb\<close>, \<open>SignaturesDb\<close> and \<open>TransactionsDb\<close> are the statements of
      \<open>src/db/jobs.rs\<close>, \<open>src/db/signatures.rs\<close> and \<open>src/db/transactions.rs\<close>. \<open>Database\<close> is
      \<open>src/db.rs\<close> with the Rust code around the statements.
    \<^item> \<open>JobLifecycle\<close> gives the contract of the job queue and its refinement; \<open>ClaimRace\<close> takes the
      claim apart into the steps at which sessions interleave.
    \<^item> \<open>World\<close> is what the asynchronous code runs against (below). \<open>Indexer\<close> and \<open>IndexerProps\<close> are
      \<open>src/indexer.rs\<close>, \<open>Workers\<close> and \<open>Settings\<close> are \<open>src/main.rs\<close>, \<open>src/settings.rs\<close> and
      \<open>HeliusApi::new\<close>, \<open>Server\<close> is \<open>src/server.rs\<close>. \<open>FetchComplete\<close> is about the paging against a
      service that behaves as documented, \<open>HeldLeases\<close> about what an earlier run leaves behind.
      \<open>Fixtures\<close> is \<open>src/bin/fixture_updater.rs\<close>.
    \<^item> \<open>System\<close> puts the tasks together: what any of them may do to the tables is the step relation
      \<open>program_step\<close>, which the workers and the handlers keep to as long as the others do. The interface
      between a task and the statements is the locale \<open>disciplined\<close> of \<open>Indexer\<close>; it is interpreted for
      each invariant of the tables, and for the steps themselves. \<open>SystemProps\<close> draws the conclusions for
      the client: its job is settled and is not lost.

  \<^bold>\<open>How the code is modelled.\<close> A struct is a record, an enum a datatype, with the fields and
  constructors of the source; an error is the left side of a sum, its text a string. A statement of
  SQL is a function of a \<open>turn\<close> and the tables. The turn holds what the session adds: the clock, the
  order of an unordered scan, the rows other sessions have locked, and a fault (the statement fails, or
  it takes effect and its reply is lost). A task threads a \<open>sys\<close> record: the tables, the rate-limit
  state, a monotonic clock in nanoseconds, and the rest of the world as a value of an arbitrary type.
  The record \<open>env\<close> holds the libraries and services as functions: the clock, the random numbers, the
  HTTP exchange, the derived JSON decoders, the conversion of numbers. Other tasks act through it:
  \<open>env_db_turn\<close> may replace the tables before each statement, \<open>env_others_limiter\<close> the rate-limit state
  before each lock. What a theorem needs of them is a named hypothesis: \<open>others_keep\<close> (the others keep
  an invariant), \<open>others_grow\<close> (they delete nothing), \<open>others_run\<close> (they run this program), \<open>db_alone\<close> (no other client of the
  database), \<open>cooldown_respected\<close> (they cut no cooldown short), \<open>cooldowns_bounded\<close> (past some moment they
  extend none), \<open>no_faults\<close>, \<open>grants_permits\<close> (a semaphore with permits hands them out), \<open>timed_service\<close>
  (every signature comes with its block time), \<open>maskable_service\<close> and \<open>loggable_db\<close> (the signatures
  listed, and those in the tables, can be masked for the log), \<open>samples_ok\<close> (the documented range of a
  random sample). \<open>script_env\<close> is a concrete world, for the witnesses.

  A function of type \<open>option\<close> returns \<open>None\<close> where the Rust function does not return, because it loops
  for ever (\<open>partial_function\<close>), waits for a permit of a semaphore that has none, or panics. The fields
  of spans and warnings of the client are computed where the code logs them, if the level is enabled,
  since masking a text there can panic. Loops with a bound are structural: over the list of attempts,
  the chunks, the retries. \<open>worker_rounds\<close> takes the number of rounds, since the loop of a worker has
  no end. That the calls do return is proved, under the conditions above: \<open>client_returns\<close>, \<open>indexing_returns\<close> and
  \<open>worker_drains_queue\<close>.

  \<^bold>\<open>What is shown.\<close>
    \<^item> Claims. A claim takes the oldest eligible job that no other session holds; no interleaving claims
      a job twice. While statements run one after the other an address has one job being indexed, and
      the statements refine the queue; when claims overlap two jobs of an address can run
      (\<open>overlapping_claims_share_address\<close>). A finished job is final. A job whose worker died is never
      taken up again and blocks its address (\<open>orphaned_job_blocks_address\<close>).
    \<^item> Leases. A leased signature is not leased again within five minutes, a processed one never; storing
      a page again, or marking again, changes nothing.
    \<^item> Storing. Saving a batch is idempotent, and what a save accepted is in the tables, whatever other
      sessions insert. No signature is marked processed before its transaction and its events are
      stored (\<open>processed_is_stored\<close>). A signature whose fetch failed stays leased
      (\<open>failed_fetch_keeps_lease\<close>), and a lease left behind makes the next job of the address fail until it
      runs out (\<open>retry_within_lease_fails\<close>). A job becomes \<open>ready\<close> exactly when its progress shows no
      remaining signature.
    \<^item> Transfers. The events are well formed, of distinct positions in the transaction, and the last
      balance entry of an account counts.
    \<^item> Paging. Against a service that lists the signatures newest first, fetching that succeeds leaves no
      signature of the window out of the table, unless the limit of the job is reached (\<open>fetch_complete\<close>).
    \<^item> The client. Every signature of a batch is accounted for once, as processed with its transaction or
      as failed with an error that is explained; requests stay within the retry budget, paging within
      the limit; after a rate limit no slot is acquired before the delay has passed, as long as the other
      tasks cut no cooldown short, but a request that already waits for the quota is (\<open>cooldown_overtaken\<close>); no more than \<open>max_concurrent\<close> are in
      flight.
    \<^item> The whole. A job that comes out \<open>ready\<close> has the transaction and the events of every signature of
      its window in the tables (\<open>ready_means_complete\<close>); a claimed job is settled as \<open>ready\<close> or \<open>error\<close>;
      a worker drains the queue; a posted job can be looked up.
    \<^item> The whole among others. Workers and handlers keep to the steps of the program whatever the service
      answers and whichever statements fail (\<open>program_guarantee\<close>); so the tables stay sound from the empty
      ones on, nothing is lost and jobs only advance (\<open>program_keeps_sound\<close>); and a job that becomes \<open>ready\<close>
      is complete for the signatures of its window known at that moment (\<open>ready_complete_among_others\<close>).
      A claimed job is settled also among the others (\<open>job_settled_among_others\<close>), and a posted one stays
      in the queue and can be looked up however the program runs on (\<open>posted_job_never_lost\<close>).

  \<^bold>\<open>Bounds.\<close> Signed integers are unbounded with a range predicate (\<open>in_signed\<close>) where the code
  converts or can overflow; counts of rows are natural numbers. \<open>u8\<close>, \<open>u16\<close> and \<open>u64\<close> fields of the
  decoded transactions are words. In \<open>Client\<close> a chunk runs one fetch after the other: its results come
  in the order of the signatures, and the requests of one batch meet only in the rate-limit state,
  which \<open>env_others_limiter\<close> may change at every lock: it stands for the other tasks and for the other
  fetches of the chunk. How \<open>buffered(5)\<close> schedules these is the library's; what the code relies on is that
  it yields the results in order. \<open>RequestSlots\<close> has the requests of many tasks side by side.

  \<^bold>\<open>Not modelled.\<close> Log output (the arguments of a log event only where computing them can panic; the
  spans of the database calls mask the address that the indexer has masked before), durations that are
  only logged, \<open>src/telemetry.rs\<close> (library calls only), reading the settings, the migrator, the derived
  serialisers and with them the unit tests of \<open>src/requests/types.rs\<close>, which check these on recorded
  replies, the library's pool, token bucket and task runtime. The columns \<open>created_at\<close> and \<open>id\<close> of \<open>token_transfers\<close> are left out: no statement reads
  them.
\<close>

end
